theory Spec2Isabelle
  imports Main "HOL-Library.Sublist" "HOL-Library.Word"
begin

section \<open>Strings\<close>

text \<open>
  A JavaScript string is a sequence of UTF-16 code units. A code unit is modelled by its
  number, an integer from 0 to 65535; no definition below depends on these bounds, so
  every statement about all lists of integers covers every JavaScript string.
  \<open>js\<close> turns an ASCII literal into its code units.
\<close>

type_synonym unit16 = int

type_synonym jsstring = "unit16 list"

definition js :: "string \<Rightarrow> jsstring" where
  "js s = map of_char s"

section \<open>Regular expressions\<close>

text \<open>
  The patterns of \<open>SANITIZE_PATTERNS\<close> use literal characters, character classes
  (with ranges, \<open>\w\<close>, \<open>\d\<close> and \<open>\s\<close>, possibly negated), sequencing, greedy
  quantifiers over non-capturing groups and the assertion \<open>\b\<close>. None carries the
  \<open>u\<close> flag, so they work on code units.
\<close>

datatype class_atom =
    Lit unit16
  | Range unit16 unit16
  | WordChars
  | Digits
  | WhiteSpace

datatype regex =
    Eps
  | Chars bool "class_atom list"
  | Cat regex regex
  | Rep nat "nat option" regex
  | WordBoundary

definition is_digit :: "unit16 \<Rightarrow> bool" where
  "is_digit c = (48 \<le> c \<and> c \<le> 57)"

definition is_upper :: "unit16 \<Rightarrow> bool" where
  "is_upper c = (65 \<le> c \<and> c \<le> 90)"

definition is_lower :: "unit16 \<Rightarrow> bool" where
  "is_lower c = (97 \<le> c \<and> c \<le> 122)"

text \<open>\<open>\w\<close> without the \<open>u\<close> and \<open>i\<close> flags together: \<open>[A-Za-z0-9_]\<close>.\<close>

definition is_word_char :: "unit16 \<Rightarrow> bool" where
  "is_word_char c = (is_lower c \<or> is_upper c \<or> is_digit c \<or> c = 95)"

text \<open>
  \<open>\s\<close>: the WhiteSpace and LineTerminator code points of ECMAScript: TAB, LF, VT, FF,
  CR, SPACE, NBSP, U+1680, U+2000 to U+200A, U+2028, U+2029, U+202F, U+205F, U+3000 and
  U+FEFF.
\<close>

definition is_space :: "unit16 \<Rightarrow> bool" where
  "is_space c = ((9 \<le> c \<and> c \<le> 13) \<or> c = 32 \<or> c = 160 \<or> c = 5760
     \<or> (8192 \<le> c \<and> c \<le> 8202) \<or> c = 8232 \<or> c = 8233 \<or> c = 8239 \<or> c = 8287
     \<or> c = 12288 \<or> c = 65279)"

fun atom_mem :: "class_atom \<Rightarrow> unit16 \<Rightarrow> bool" where
  "atom_mem (Lit a) c = (c = a)"
| "atom_mem (Range a b) c = (a \<le> c \<and> c \<le> b)"
| "atom_mem WordChars c = is_word_char c"
| "atom_mem Digits c = is_digit c"
| "atom_mem WhiteSpace c = is_space c"

text \<open>
  With the \<open>i\<close> flag a code unit matches a class member when both have the same
  canonical (upper-case) form. The canonical form of a non-ASCII code unit is never
  ASCII, and every class in this program has ASCII members only, so the other case of an
  ASCII letter is the only additional candidate.
\<close>

definition swap_case :: "unit16 \<Rightarrow> unit16" where
  "swap_case c = (if is_lower c then c - 32 else if is_upper c then c + 32 else c)"

definition class_mem :: "bool \<Rightarrow> bool \<Rightarrow> class_atom list \<Rightarrow> unit16 \<Rightarrow> bool" where
  "class_mem ignoreCase invert atoms c =
     (invert \<noteq> list_ex (\<lambda>a. atom_mem a c \<or> (ignoreCase \<and> atom_mem a (swap_case c))) atoms)"

text \<open>
  A matcher state is the code unit before the current position (if any, for \<open>\b\<close>) and
  the input that remains. A matcher returns the states in which a match can end, in the
  order in which the backtracking engine of ECMAScript tries them: the head of the list
  is the match that \<open>exec\<close> reports.
\<close>

type_synonym mstate = "unit16 option \<times> jsstring"

text \<open>
  RepeatMatcher of ECMAScript for a greedy quantifier \<open>{mn,mx}\<close> (\<open>mx = None\<close> for no
  upper bound): up to \<open>mx\<close> iterations of the body, more iterations first; once the
  minimum is reached an iteration that consumes nothing is rejected. The bound
  \<open>length (snd y) \<le> length (snd x)\<close> holds for every state a matcher returns.
\<close>

function repeat_matcher ::
  "(mstate \<Rightarrow> mstate list) \<Rightarrow> nat \<Rightarrow> nat option \<Rightarrow> mstate \<Rightarrow> mstate list" where
  "repeat_matcher m mn mx x =
     (if mx = Some 0 then [x]
      else concat (map (repeat_matcher m (mn - 1) (map_option (\<lambda>k. k - 1) mx))
                    (filter (\<lambda>y. if mn = 0 then length (snd y) < length (snd x)
                                  else length (snd y) \<le> length (snd x)) (m x)))
           @ (if mn = 0 then [x] else []))"
  by pat_completeness auto
termination
  by (relation "measure (\<lambda>(m, mn, mx, x). mn + length (snd x))") (auto split: if_splits)

declare repeat_matcher.simps [simp del]

definition is_word_opt :: "unit16 option \<Rightarrow> bool" where
  "is_word_opt c = (case c of None \<Rightarrow> False | Some d \<Rightarrow> is_word_char d)"

definition next_unit :: "mstate \<Rightarrow> unit16 option" where
  "next_unit x = (case snd x of [] \<Rightarrow> None | c # cs \<Rightarrow> Some c)"

primrec matcher :: "bool \<Rightarrow> regex \<Rightarrow> mstate \<Rightarrow> mstate list" where
  "matcher ic Eps x = [x]"
| "matcher ic (Chars invert atoms) x =
     (case snd x of
        [] \<Rightarrow> []
      | c # cs \<Rightarrow> if class_mem ic invert atoms c then [(Some c, cs)] else [])"
| "matcher ic (Cat r1 r2) x = concat (map (matcher ic r2) (matcher ic r1 x))"
| "matcher ic (Rep mn mx r) x = repeat_matcher (matcher ic r) mn mx x"
| "matcher ic WordBoundary x =
     (if is_word_opt (fst x) \<noteq> is_word_opt (next_unit x) then [x] else [])"

text \<open>
  \<open>exec\<close> at one position: the first state of the matcher, if any.
\<close>

definition match_at :: "bool \<Rightarrow> regex \<Rightarrow> mstate \<Rightarrow> mstate option" where
  "match_at ic r x = (case matcher ic r x of [] \<Rightarrow> None | y # ys \<Rightarrow> Some y)"

text \<open>Building blocks for writing the patterns as the source writes them.\<close>

definition cu :: "char \<Rightarrow> unit16" where
  "cu c = of_char c"

definition lit :: "char \<Rightarrow> regex" where
  "lit c = Chars False [Lit (cu c)]"

definition seq :: "regex list \<Rightarrow> regex" where
  "seq rs = foldr Cat rs Eps"

definition str :: "string \<Rightarrow> regex" where
  "str s = seq (map lit s)"

definition optional :: "regex \<Rightarrow> regex" where
  "optional r = Rep 0 (Some 1) r"

definition star :: "regex \<Rightarrow> regex" where
  "star r = Rep 0 None r"

definition plus :: "regex \<Rightarrow> regex" where
  "plus r = Rep 1 None r"

definition times :: "nat \<Rightarrow> regex \<Rightarrow> regex" where
  "times n r = Rep n (Some n) r"

definition between :: "nat \<Rightarrow> nat \<Rightarrow> regex \<Rightarrow> regex" where
  "between lo hi r = Rep lo (Some hi) r"

section \<open>The sanitizer (utils.ts)\<close>

text \<open>
  One entry of \<open>SANITIZE_PATTERNS\<close>: the regular expression, whether it carries the
  \<open>i\<close> flag (all carry \<open>g\<close>), and the replacement.
\<close>

record pattern =
  rx :: regex
  ignoreCase :: bool
  replacement :: jsstring

text \<open>\<open>[\w.-]\<close>\<close>

definition word_dot_dash :: regex where
  "word_dot_dash = Chars False [WordChars, Lit (cu CHR ''.''), Lit (cu CHR ''-'')]"

text \<open>\<open>[0-9a-f]\<close>\<close>

definition hex_lower :: regex where
  "hex_lower = Chars False [Range (cu CHR ''0'') (cu CHR ''9''), Range (cu CHR ''a'') (cu CHR ''f'')]"

text \<open>\<open>/https?:\/\/[^\s]+/g\<close>\<close>

definition url_pattern :: pattern where
  "url_pattern = \<lparr> rx = seq [str ''http'', optional (lit CHR ''s''), str ''://'',
                              plus (Chars True [WhiteSpace])],
                   ignoreCase = False, replacement = js ''[URL]'' \<rparr>"

text \<open>\<open>/[\w.-]+@[\w.-]+\.\w+/g\<close>\<close>

definition email_pattern :: pattern where
  "email_pattern = \<lparr> rx = seq [plus word_dot_dash, lit CHR ''@'', plus word_dot_dash,
                                lit CHR ''.'', plus (Chars False [WordChars])],
                     ignoreCase = False, replacement = js ''[EMAIL]'' \<rparr>"

text \<open>\<open>/\b\d{1,3}\.\d{1,3}\.\d{1,3}\.\d{1,3}\b/g\<close>\<close>

definition ip_pattern :: pattern where
  "ip_pattern = \<lparr> rx = seq [WordBoundary,
                             between 1 3 (Chars False [Digits]), lit CHR ''.'',
                             between 1 3 (Chars False [Digits]), lit CHR ''.'',
                             between 1 3 (Chars False [Digits]), lit CHR ''.'',
                             between 1 3 (Chars False [Digits]), WordBoundary],
                  ignoreCase = False, replacement = js ''[IP]'' \<rparr>"

text \<open>\<open>/[0-9a-f]{8}-[0-9a-f]{4}-[0-9a-f]{4}-[0-9a-f]{4}-[0-9a-f]{12}/gi\<close>\<close>

definition uuid_pattern :: pattern where
  "uuid_pattern = \<lparr> rx = seq [times 8 hex_lower, lit CHR ''-'', times 4 hex_lower, lit CHR ''-'',
                               times 4 hex_lower, lit CHR ''-'', times 4 hex_lower, lit CHR ''-'',
                               times 12 hex_lower],
                    ignoreCase = True, replacement = js ''[UUID]'' \<rparr>"

text \<open>\<open>/(?:\/[\w.-]+)+\/?/g\<close>\<close>

definition unix_path_pattern :: pattern where
  "unix_path_pattern = \<lparr> rx = seq [plus (seq [lit CHR ''/'', plus word_dot_dash]),
                                    optional (lit CHR ''/'')],
                         ignoreCase = False, replacement = js ''[PATH]'' \<rparr>"

text \<open>\<open>/[A-Za-z]:\\(?:[\w.-]+\\)*/g\<close>\<close>

definition windows_path_pattern :: pattern where
  "windows_path_pattern =
     \<lparr> rx = seq [Chars False [Range (cu CHR ''A'') (cu CHR ''Z''), Range (cu CHR ''a'') (cu CHR ''z'')],
                 lit CHR '':'', lit (CHR 0x5C),
                 star (seq [plus word_dot_dash, lit (CHR 0x5C)])],
       ignoreCase = False, replacement = js ''[PATH]'' \<rparr>"

definition SANITIZE_PATTERNS :: "pattern list" where
  "SANITIZE_PATTERNS = [url_pattern, email_pattern, ip_pattern, uuid_pattern,
                        unix_path_pattern, windows_path_pattern]"

text \<open>
  \<open>String.prototype.replace\<close> with a global regular expression and a replacement
  without \<open>$\<close>: scanning from the left, the first position at which the expression
  matches is replaced and the scan goes on behind the match; a code unit at which it
  does not match is copied. After an empty match the scan advances by one code unit.
  The state carries the code unit before the position, which \<open>\b\<close> inspects.
\<close>

function replace_from :: "pattern \<Rightarrow> mstate \<Rightarrow> jsstring" where
  "replace_from p (prev, s) =
     (case match_at (ignoreCase p) (rx p) (prev, s) of
        Some y \<Rightarrow>
          if length (snd y) < length s then replacement p @ replace_from p y
          else replacement p @ (case s of [] \<Rightarrow> [] | c # cs \<Rightarrow> c # replace_from p (Some c, cs))
      | None \<Rightarrow> (case s of [] \<Rightarrow> [] | c # cs \<Rightarrow> c # replace_from p (Some c, cs)))"
  by pat_completeness auto
termination
  by (relation "measure (\<lambda>(p, x). length (snd x))") auto

declare replace_from.simps [simp del]

definition replace :: "pattern \<Rightarrow> jsstring \<Rightarrow> jsstring" where
  "replace p s = replace_from p (None, s)"

text \<open>
  \<open>truncateString(str, maxLength)\<close>. \<open>substring(0, n)\<close> treats a negative \<open>n\<close> as 0
  and an \<open>n\<close> beyond the length as the length, which is what \<open>take (nat n)\<close> does.
\<close>

definition truncateString :: "jsstring \<Rightarrow> int \<Rightarrow> jsstring" where
  "truncateString s maxLength =
     (if int (length s) \<le> maxLength then s
      else take (nat (maxLength - 3)) s @ js ''...'')"

text \<open>The loop of \<open>sanitizeErrorMessage\<close> over \<open>SANITIZE_PATTERNS\<close>.\<close>

definition substitute :: "jsstring \<Rightarrow> jsstring" where
  "substitute message = fold replace SANITIZE_PATTERNS message"

definition sanitizeErrorMessage :: "jsstring \<Rightarrow> jsstring" where
  "sanitizeErrorMessage message = truncateString (substitute message) 512"

section \<open>Opt-out gate (utils.ts)\<close>

text \<open>
  \<open>process.env\<close>: variable names (ASCII identifiers) to string values; a variable that is
  not set reads as \<open>undefined\<close>, here \<open>None\<close>.
\<close>

type_synonym env = "string \<rightharpoonup> jsstring"

definition TELEMETRY_OPT_OUT_VARS :: "string list" where
  "TELEMETRY_OPT_OUT_VARS =
     [''HEFT_TELEMETRY_DISABLED'', ''DISABLE_TELEMETRY'', ''DO_NOT_TRACK'', ''TELEMETRY_DISABLED'']"

text \<open>
  \<open>String.prototype.toLowerCase\<close>. On a string of ASCII code units it lowers the letters
  A to Z and nothing else. A string with a non-ASCII code unit is lowered by the Unicode
  tables of the runtime, which are not part of the repository: they are the parameter
  \<open>unicode_lower\<close>.
\<close>

definition is_ascii :: "unit16 \<Rightarrow> bool" where
  "is_ascii c = (0 \<le> c \<and> c < 128)"

definition ascii_lower :: "unit16 \<Rightarrow> unit16" where
  "ascii_lower c = (if is_upper c then c + 32 else c)"

definition toLowerCase :: "(jsstring \<Rightarrow> jsstring) \<Rightarrow> jsstring \<Rightarrow> jsstring" where
  "toLowerCase unicode_lower s =
     (if list_all is_ascii s then map ascii_lower s else unicode_lower s)"

text \<open>
  The condition of the loop body:
  \<open>value === '1' || value?.toLowerCase() === 'true'\<close>.
\<close>

definition opts_out :: "(jsstring \<Rightarrow> jsstring) \<Rightarrow> jsstring option \<Rightarrow> bool" where
  "opts_out unicode_lower v =
     (case v of
        None \<Rightarrow> False
      | Some s \<Rightarrow> s = js ''1'' \<or> toLowerCase unicode_lower s = js ''true'')"

text \<open>The \<open>for\<close> loop of \<open>isTelemetryDisabled\<close>, returning at the first hit.\<close>

fun opt_out_loop :: "(jsstring \<Rightarrow> jsstring) \<Rightarrow> env \<Rightarrow> string list \<Rightarrow> bool" where
  "opt_out_loop ul e [] = False"
| "opt_out_loop ul e (envVar # rest) =
     (if opts_out ul (e envVar) then True else opt_out_loop ul e rest)"

definition isTelemetryDisabled :: "(jsstring \<Rightarrow> jsstring) \<Rightarrow> env \<Rightarrow> bool" where
  "isTelemetryDisabled ul e = opt_out_loop ul e TELEMETRY_OPT_OUT_VARS"

section \<open>Error values, system facts, session id, credential check (utils.ts)\<close>

text \<open>
  A value of type \<open>unknown\<close> as \<open>trackPluginError\<close> sees it. An \<open>Error\<close> instance
  has the name of its constructor and a message. For any other value only its coercion
  \<open>String(value)\<close> matters; the coercion throws for some values (an object without
  \<open>toString\<close>, or one whose \<open>toString\<close> throws), which is \<open>None\<close>.
\<close>

datatype jsvalue =
    ErrorObject jsstring jsstring
  | NonError "jsstring option"

fun getErrorType :: "jsvalue \<Rightarrow> jsstring" where
  "getErrorType (ErrorObject ctor_name message) = ctor_name"
| "getErrorType (NonError coercion) = js ''UnknownError''"

text \<open>What \<open>node:os\<close>, \<open>process\<close> and \<open>ci-info\<close> report.\<close>

record system_info =
  os_platform :: jsstring
  os_release :: jsstring
  process_version :: jsstring
  ciInfo_isCI :: bool

definition getOsType :: "system_info \<Rightarrow> jsstring" where
  "getOsType sys = os_platform sys"

definition getOsVersion :: "system_info \<Rightarrow> jsstring" where
  "getOsVersion sys = os_release sys"

text \<open>\<open>process.version.replace(/^v/, '')\<close>: a leading \<open>v\<close> is dropped.\<close>

definition getNodeVersion :: "system_info \<Rightarrow> jsstring" where
  "getNodeVersion sys =
     (case process_version sys of
        [] \<Rightarrow> []
      | c # cs \<Rightarrow> if c = cu CHR ''v'' then cs else c # cs)"

definition getIsCIEnvironment :: "system_info \<Rightarrow> bool" where
  "getIsCIEnvironment sys = ciInfo_isCI sys"

text \<open>
  The random source of \<open>node:crypto\<close> is the tape of bytes it is going to deliver;
  \<open>randomBytes n\<close> takes the next \<open>n\<close> bytes off the tape.
\<close>

type_synonym entropy = "nat \<Rightarrow> 8 word"

definition randomBytes :: "nat \<Rightarrow> entropy \<Rightarrow> 8 word list \<times> entropy" where
  "randomBytes n tape = (map tape [0..<n], \<lambda>i. tape (i + n))"

text \<open>\<open>Buffer.toString('hex')\<close>: two lower-case hexadecimal digits for each byte.\<close>

definition hex_digit :: "nat \<Rightarrow> unit16" where
  "hex_digit n = (if n < 10 then 48 + int n else 87 + int n)"

definition hex_byte :: "8 word \<Rightarrow> jsstring" where
  "hex_byte b = [hex_digit (unat b div 16), hex_digit (unat b mod 16)]"

definition toString_hex :: "8 word list \<Rightarrow> jsstring" where
  "toString_hex bytes = concat (map hex_byte bytes)"

definition generateSessionId :: "entropy \<Rightarrow> jsstring \<times> entropy" where
  "generateSessionId tape = (toString_hex (fst (randomBytes 16 tape)), snd (randomBytes 16 tape))"

text \<open>\<open>String.prototype.includes\<close>\<close>

definition includes_js :: "jsstring \<Rightarrow> jsstring \<Rightarrow> bool" where
  "includes_js s part = sublist part s"

text \<open>
  \<open>isValidConnectionString\<close>: the argument is a string, so \<open>typeof\<close> is
  \<open>'string'\<close> and \<open>!connectionString\<close> holds for the empty string only.
\<close>

definition isValidConnectionString :: "jsstring \<Rightarrow> bool" where
  "isValidConnectionString connectionString =
     (if connectionString = [] then False
      else includes_js connectionString (js ''InstrumentationKey='')
           \<or> includes_js connectionString (js ''IngestionEndpoint=''))"

text \<open>
  \<open>getTelemetryClientVersion\<close> with its module-level cache. Resolving, reading and
  parsing \<open>package.json\<close> either throws or yields the \<open>version\<close> entry, if there is
  one. The counter \<open>version_lookups\<close> records each invocation.
\<close>

datatype package_json = ReadThrows | Version "jsstring option"

record module_state =
  cachedTelemetryClientVersion :: "jsstring option"
  version_lookups :: nat

definition getTelemetryClientVersion ::
  "package_json \<Rightarrow> module_state \<Rightarrow> jsstring \<times> module_state" where
  "getTelemetryClientVersion pkg st =
     (let st1 = st\<lparr>version_lookups := version_lookups st + 1\<rparr> in
      case cachedTelemetryClientVersion st of
        Some v \<Rightarrow> (v, st1)
      | None \<Rightarrow>
          (let v = (case pkg of
                      ReadThrows \<Rightarrow> js ''unknown''
                    | Version None \<Rightarrow> js ''unknown''
                    | Version (Some ver) \<Rightarrow> if ver = [] then js ''unknown'' else ver)
           in (v, st1\<lparr>cachedTelemetryClientVersion := Some v\<rparr>)))"

section \<open>Types (types.ts)\<close>

datatype TelemetryEventType = EvInstalled | EvStarted | EvCompleted | EvError | EvWarning

fun event_name :: "TelemetryEventType \<Rightarrow> jsstring" where
  "event_name EvInstalled = js ''plugin.installed''"
| "event_name EvStarted = js ''plugin.started''"
| "event_name EvCompleted = js ''plugin.completed''"
| "event_name EvError = js ''plugin.error''"
| "event_name EvWarning = js ''plugin.warning''"

datatype PluginOutcome = OutcomeSuccess | OutcomeWarning | OutcomeError

fun outcome_name :: "PluginOutcome \<Rightarrow> jsstring" where
  "outcome_name OutcomeSuccess = js ''success''"
| "outcome_name OutcomeWarning = js ''warning''"
| "outcome_name OutcomeError = js ''error''"

record TelemetryConfig =
  pluginName :: jsstring
  pluginVersion :: jsstring
  connectionString :: "jsstring option"

text \<open>
  A \<open>TelemetryContext\<close> object is the list of its properties in the order in which the
  object literal writes them; a property of the interface that the literal does not write
  is absent from the list.
\<close>

datatype jsprim = JString jsstring | JBool bool

type_synonym TelemetryContext = "(string \<times> jsprim) list"

section \<open>The sink (Application Insights SDK)\<close>

text \<open>
  The SDK is outside the repository. Its calls are recorded in the order in which the
  client makes them; how it reacts (which calls throw, whether and when \<open>flush\<close> calls
  back) is a parameter.
\<close>

datatype sink_call =
    Setup jsstring
  | AddTelemetryProcessor
  | TrackEvent jsstring "(string \<times> jsstring) list" "(string \<times> int) list"
  | TrackMetric jsstring int "(string \<times> jsstring) list"
  | Flush

datatype flush_reaction = FlushThrows | CallbackAfter nat | NoCallback

record sink_behaviour =
  setup_throws :: "jsstring \<Rightarrow> bool"
  addTelemetryProcessor_throws :: bool
  trackEvent_throws :: "sink_call \<Rightarrow> bool"
  trackMetric_throws :: "sink_call \<Rightarrow> bool"
  flush_reaction :: flush_reaction

text \<open>Everything else a client reads from its surroundings.\<close>

record runtime =
  process_env :: env
  sys :: system_info
  sdk :: sink_behaviour
  unicode_lower :: "jsstring \<Rightarrow> jsstring"
  now :: jsstring

text \<open>What a client can change: the calls the sink has seen, the random tape, the module state of utils.ts.\<close>

record world =
  sink_calls :: "sink_call list"
  random_tape :: entropy
  utils_module :: module_state

text \<open>How a call ends: it returns, or it throws; either way the world may have changed.\<close>

datatype completion = Returns world | Throws world

definition sink_call :: "(sink_call \<Rightarrow> bool) \<Rightarrow> sink_call \<Rightarrow> world \<Rightarrow> completion" where
  "sink_call throws call w =
     (let w' = w\<lparr>sink_calls := sink_calls w @ [call]\<rparr>
      in if throws call then Throws w' else Returns w')"

text \<open>\<open>try { ... } catch { }\<close>: an exception of the body is discarded.\<close>

fun try_catch :: "completion \<Rightarrow> completion" where
  "try_catch (Returns w) = Returns w"
| "try_catch (Throws w) = Returns w"

text \<open>Two statements in sequence: the second runs if the first returns.\<close>

fun and_then :: "completion \<Rightarrow> (world \<Rightarrow> completion) \<Rightarrow> completion" where
  "and_then (Returns w) f = f w"
| "and_then (Throws w) f = Throws w"

section \<open>TelemetryClient (TelemetryClient.ts)\<close>

definition DEFAULT_CONNECTION_STRING :: jsstring where
  "DEFAULT_CONNECTION_STRING = js ''__HEFT_PLUGINS_APP_INSIGHTS_CONNECTION_STRING__''"

datatype sdk_client = DefaultClient

record TelemetryClient =
  private_client :: "sdk_client option"
  private_context :: TelemetryContext
  private_enabled :: bool

text \<open>
  \<open>a || b\<close> for a string \<open>a\<close> that may be \<open>undefined\<close> and a string \<open>b\<close>:
  \<open>a\<close> unless it is \<open>undefined\<close> or empty.
\<close>

definition js_or :: "jsstring option \<Rightarrow> jsstring \<Rightarrow> jsstring" where
  "js_or a b = (case a of None \<Rightarrow> b | Some s \<Rightarrow> if s = [] then b else s)"

definition getConnectionString :: "env \<Rightarrow> jsstring option \<Rightarrow> jsstring" where
  "getConnectionString e configConnectionString =
     js_or configConnectionString
       (js_or (e ''HEFT_PLUGINS_APP_INSIGHTS_CONNECTION_STRING'') DEFAULT_CONNECTION_STRING)"

text \<open>The constructor.\<close>

definition new_TelemetryClient ::
  "runtime \<Rightarrow> TelemetryConfig \<Rightarrow> world \<Rightarrow> TelemetryClient \<times> world" where
  "new_TelemetryClient rt config w =
     (let enabled0 = \<not> isTelemetryDisabled (unicode_lower rt) (process_env rt);
          sid = generateSessionId (random_tape w);
          w0 = w\<lparr>random_tape := snd sid\<rparr>;
          context = [(''osType'', JString (getOsType (sys rt))),
                     (''osVersion'', JString (getOsVersion (sys rt))),
                     (''nodeVersion'', JString (getNodeVersion (sys rt))),
                     (''isCI'', JBool (getIsCIEnvironment (sys rt))),
                     (''sessionId'', JString (fst sid)),
                     (''pluginName'', JString (pluginName config)),
                     (''pluginVersion'', JString (pluginVersion config))]
      in if enabled0 then
           (let cs = getConnectionString (process_env rt) (connectionString config) in
            if \<not> isValidConnectionString cs then
              (\<lparr>private_client = None, private_context = context, private_enabled = False\<rparr>, w0)
            else
              (case sink_call (\<lambda>c. setup_throws (sdk rt) cs) (Setup cs) w0 of
                 Throws w1 \<Rightarrow>
                   (\<lparr>private_client = None, private_context = context, private_enabled = False\<rparr>, w1)
               | Returns w1 \<Rightarrow>
                   (case sink_call (\<lambda>c. addTelemetryProcessor_throws (sdk rt)) AddTelemetryProcessor w1 of
                      Throws w2 \<Rightarrow>
                        (\<lparr>private_client = Some DefaultClient, private_context = context,
                          private_enabled = False\<rparr>, w2)
                    | Returns w2 \<Rightarrow>
                        (\<lparr>private_client = Some DefaultClient, private_context = context,
                          private_enabled = True\<rparr>, w2))))
         else (\<lparr>private_client = None, private_context = context, private_enabled = False\<rparr>, w0))"

definition isEnabled :: "TelemetryClient \<Rightarrow> bool" where
  "isEnabled c = private_enabled c"

text \<open>\<open>getContext\<close> returns a copy made with the spread operator: the same properties.\<close>

definition getContext :: "TelemetryClient \<Rightarrow> TelemetryContext" where
  "getContext c = private_context c"

text \<open>
  \<open>_getContextProperties\<close>, which the telemetry processor merges into the properties of
  every envelope: the context as strings. A property that is absent reads as
  \<open>undefined\<close>, here \<open>None\<close>.
\<close>

definition String_prim :: "jsprim \<Rightarrow> jsstring" where
  "String_prim v = (case v of JString s \<Rightarrow> s | JBool b \<Rightarrow> if b then js ''true'' else js ''false'')"

definition getContextProperties :: "TelemetryClient \<Rightarrow> (string \<times> jsstring option) list" where
  "getContextProperties c =
     map (\<lambda>k. (k, map_option String_prim (map_of (private_context c) k)))
       [''pluginName'', ''pluginVersion'', ''osType'', ''osVersion'', ''nodeVersion'', ''isCI'',
        ''sessionId'']"

text \<open>The guard \<open>if (!this._enabled || !this._client) return;\<close> of every operation.\<close>

definition inactive :: "TelemetryClient \<Rightarrow> bool" where
  "inactive c = (\<not> private_enabled c \<or> private_client c = None)"

text \<open>
  \<open>String(n)\<close> for a number. Durations and counts are modelled as integers, printed in
  decimal.
\<close>

function decimal :: "nat \<Rightarrow> jsstring" where
  "decimal n = (if n < 10 then [48 + int n] else decimal (n div 10) @ [48 + int (n mod 10)])"
  by pat_completeness auto
termination
  by (relation "measure id") auto

declare decimal.simps [simp del]

definition String_number :: "int \<Rightarrow> jsstring" where
  "String_number n = (if n < 0 then cu CHR ''-'' # decimal (nat (- n)) else decimal (nat n))"

definition trackPluginInstalled :: "runtime \<Rightarrow> TelemetryClient \<Rightarrow> world \<Rightarrow> completion" where
  "trackPluginInstalled rt c w =
     (if inactive c then Returns w
      else try_catch
             (sink_call (trackEvent_throws (sdk rt))
                (TrackEvent (event_name EvInstalled) [(''timestamp'', now rt)] []) w))"

definition trackPluginStarted :: "runtime \<Rightarrow> TelemetryClient \<Rightarrow> world \<Rightarrow> completion" where
  "trackPluginStarted rt c w =
     (if inactive c then Returns w
      else try_catch
             (sink_call (trackEvent_throws (sdk rt))
                (TrackEvent (event_name EvStarted) [(''timestamp'', now rt)] []) w))"

definition trackPluginCompleted ::
  "runtime \<Rightarrow> TelemetryClient \<Rightarrow> int \<Rightarrow> PluginOutcome \<Rightarrow> int \<Rightarrow> world \<Rightarrow> completion" where
  "trackPluginCompleted rt c durationMs outcome warningCount w =
     (if inactive c then Returns w
      else try_catch
             (and_then
                (sink_call (trackEvent_throws (sdk rt))
                   (TrackEvent (event_name EvCompleted)
                      [(''timestamp'', now rt), (''outcome'', outcome_name outcome),
                       (''warningCount'', String_number warningCount)]
                      [(''durationMs'', durationMs)]) w)
                (sink_call (trackMetric_throws (sdk rt))
                   (TrackMetric (js ''plugin.duration'') durationMs
                      [(''outcome'', outcome_name outcome)]))))"

text \<open>
  \<open>error instanceof Error ? error.message : String(error)\<close>; \<open>None\<close> when the
  coercion throws.
\<close>

fun error_message :: "jsvalue \<Rightarrow> jsstring option" where
  "error_message (ErrorObject ctor_name message) = Some message"
| "error_message (NonError coercion) = coercion"

definition trackPluginError ::
  "runtime \<Rightarrow> TelemetryClient \<Rightarrow> jsvalue \<Rightarrow> int \<Rightarrow> world \<Rightarrow> completion" where
  "trackPluginError rt c error durationMs w =
     (if inactive c then Returns w
      else try_catch
             (case error_message error of
                None \<Rightarrow> Throws w
              | Some errorMessage \<Rightarrow>
                  sink_call (trackEvent_throws (sdk rt))
                    (TrackEvent (event_name EvError)
                       [(''timestamp'', now rt), (''errorType'', getErrorType error),
                        (''errorMessage'', sanitizeErrorMessage errorMessage),
                        (''durationMs'', String_number durationMs)] []) w))"

definition trackPluginWarning ::
  "runtime \<Rightarrow> TelemetryClient \<Rightarrow> jsstring \<Rightarrow> jsstring \<Rightarrow> world \<Rightarrow> completion" where
  "trackPluginWarning rt c category message w =
     (if inactive c then Returns w
      else try_catch
             (sink_call (trackEvent_throws (sdk rt))
                (TrackEvent (event_name EvWarning)
                   [(''timestamp'', now rt), (''category'', truncateString category 64),
                    (''message'', sanitizeErrorMessage message)] []) w))"

text \<open>
  A promise settles at some time (milliseconds after the call that made it) or stays
  pending for ever.
\<close>

datatype promise = Resolved nat | Rejected nat | Pending

text \<open>
  The promise that \<open>flush\<close> awaits. Its executor calls the flush of the sink and then
  sets a timer of 2000 ms; callback and timer both resolve the promise, the first one
  wins. An exception of the executor (the flush of the sink throwing before the timer is
  set) rejects it.
\<close>

definition flush_race :: "flush_reaction \<Rightarrow> promise" where
  "flush_race r =
     (case r of
        FlushThrows \<Rightarrow> Rejected 0
      | CallbackAfter t \<Rightarrow> Resolved (min t 2000)
      | NoCallback \<Rightarrow> Resolved 2000)"

text \<open>\<open>try { await p } catch { }\<close> as the body of an \<open>async\<close> function.\<close>

fun try_await :: "promise \<Rightarrow> promise" where
  "try_await (Resolved t) = Resolved t"
| "try_await (Rejected t) = Resolved t"
| "try_await Pending = Pending"

definition flush :: "runtime \<Rightarrow> TelemetryClient \<Rightarrow> world \<Rightarrow> promise \<times> world" where
  "flush rt c w =
     (if inactive c then (Resolved 0, w)
      else (try_await (flush_race (flush_reaction (sdk rt))),
            w\<lparr>sink_calls := sink_calls w @ [Flush]\<rparr>))"

section \<open>Vocabulary of the specification\<close>

text \<open>The number of positions of a string at which a given string occurs.\<close>

fun occurrences :: "jsstring \<Rightarrow> jsstring \<Rightarrow> nat" where
  "occurrences part [] = (if part = [] then 1 else 0)"
| "occurrences part (c # cs) = (if prefix part (c # cs) then 1 else 0) + occurrences part cs"

text \<open>
  Two code units that are equal up to the case of an ASCII letter, and two strings that
  are equal up to the case of their ASCII letters.
\<close>

definition same_letter :: "unit16 \<Rightarrow> unit16 \<Rightarrow> bool" where
  "same_letter c d = (c = d \<or> (is_upper c \<and> d = c + 32) \<or> (is_upper d \<and> c = d + 32))"

definition equals_ignoring_case :: "jsstring \<Rightarrow> jsstring \<Rightarrow> bool" where
  "equals_ignoring_case s t = list_all2 same_letter s t"

text \<open>The format \<open>^[0-9a-f]{32}$\<close> of a session id.\<close>

definition is_lower_hex :: "unit16 \<Rightarrow> bool" where
  "is_lower_hex c = ((48 \<le> c \<and> c \<le> 57) \<or> (97 \<le> c \<and> c \<le> 102))"

definition session_id_format :: "jsstring \<Rightarrow> bool" where
  "session_id_format s = (length s = 32 \<and> list_all is_lower_hex s)"

text \<open>
  The world in which a call ends, whether the call returns, and the calls that the sink
  has seen in one world beyond those of an earlier one.
\<close>

fun world_of :: "completion \<Rightarrow> world" where
  "world_of (Returns w) = w"
| "world_of (Throws w) = w"


definition calls_made :: "world \<Rightarrow> world \<Rightarrow> sink_call list" where
  "calls_made before after = drop (length (sink_calls before)) (sink_calls after)"

section \<open>Matches and what they consume\<close>

text \<open>
  \<open>RegExp.prototype.test\<close> for a pattern without the sticky flag, started at the state
  given: whether the pattern matches at some position from there on.
\<close>

fun finds :: "pattern \<Rightarrow> mstate \<Rightarrow> bool" where
  "finds p (prev, []) = (match_at (ignoreCase p) (rx p) (prev, []) \<noteq> None)"
| "finds p (prev, c # cs) =
     (match_at (ignoreCase p) (rx p) (prev, c # cs) \<noteq> None \<or> finds p (Some c, cs))"

definition test :: "pattern \<Rightarrow> jsstring \<Rightarrow> bool" where
  "test p s = finds p (None, s)"

text \<open>
  A step of a matcher from state \<open>x\<close> to state \<open>y\<close> consumes the code units \<open>u\<close> with
  \<open>snd x = u @ snd y\<close>; \<open>steps_over Q x y\<close> says that they satisfy \<open>Q\<close>.
\<close>

definition steps_over :: "(jsstring \<Rightarrow> bool) \<Rightarrow> mstate \<Rightarrow> mstate \<Rightarrow> bool" where
  "steps_over Q x y = (\<exists>u. snd x = u @ snd y \<and> Q u)"

text \<open>
  Sufficient conditions, by the structure of an expression: every match consists of code
  units in \<open>A\<close> only; every match contains the code unit \<open>d\<close>.
\<close>

primrec consumes_only :: "(unit16 \<Rightarrow> bool) \<Rightarrow> bool \<Rightarrow> regex \<Rightarrow> bool" where
  "consumes_only A ic Eps = True"
| "consumes_only A ic (Chars invert atoms) = (\<forall>c. class_mem ic invert atoms c \<longrightarrow> A c)"
| "consumes_only A ic (Cat r1 r2) = (consumes_only A ic r1 \<and> consumes_only A ic r2)"
| "consumes_only A ic (Rep mn mx r) = consumes_only A ic r"
| "consumes_only A ic WordBoundary = True"





text \<open>An expression without the assertion \<open>\b\<close>.\<close>

primrec assertion_free :: "regex \<Rightarrow> bool" where
  "assertion_free Eps = True"
| "assertion_free (Chars invert atoms) = True"
| "assertion_free (Cat r1 r2) = (assertion_free r1 \<and> assertion_free r2)"
| "assertion_free (Rep mn mx r) = assertion_free r"
| "assertion_free WordBoundary = False"

text \<open>
  A matcher whose steps depend on the code units they consume only, not on what comes
  before or behind them.
\<close>

definition transfers :: "(mstate \<Rightarrow> mstate list) \<Rightarrow> bool" where
  "transfers m = (\<forall>p a w q b p' w'. (q, b @ w) \<in> set (m (p, a @ w)) \<longrightarrow>
                    (\<exists>q'. (q', b @ w') \<in> set (m (p', a @ w'))))"

text \<open>
  A string that begins with a URL as the specification defines it (\<open>http://\<close> or
  \<open>https://\<close> followed by a code unit that is not white space), and a string that
  contains one.
\<close>

definition starts_url :: "jsstring \<Rightarrow> bool" where
  "starts_url s =
     (\<exists>x rest. \<not> is_space x \<and> (s = js ''http://'' @ x # rest \<or> s = js ''https://'' @ x # rest))"

definition contains_url :: "jsstring \<Rightarrow> bool" where
  "contains_url s = (\<exists>pre t. s = pre @ t \<and> starts_url t)"

section \<open>Example inputs\<close>

text \<open>
  Concrete surroundings for the examples below: two random tapes with the same first 16
  bytes (the first one repeats them), an SDK that never throws and never calls back, a
  process without and one with \<open>DO_NOT_TRACK=TRUE\<close>, a configuration without and one
  with a credential, and the clients constructed from them.
\<close>

definition example_tape :: entropy where
  "example_tape i = of_nat ((i mod 16) * 37 + 5)"

definition example_tape' :: entropy where
  "example_tape' i = of_nat (i * 37 + 5)"

definition example_sink :: sink_behaviour where
  "example_sink = \<lparr> setup_throws = (\<lambda>cs. False), addTelemetryProcessor_throws = False,
                     trackEvent_throws = (\<lambda>call. False), trackMetric_throws = (\<lambda>call. False),
                     flush_reaction = NoCallback \<rparr>"

definition example_sys :: system_info where
  "example_sys = \<lparr> os_platform = js ''linux'', os_release = js ''6.1.0'',
                    process_version = js ''v22.11.0'', ciInfo_isCI = False \<rparr>"

definition env_unset :: env where
  "env_unset = Map.empty"

definition env_do_not_track :: env where
  "env_do_not_track = [''DO_NOT_TRACK'' \<mapsto> js ''TRUE'']"

definition plain_runtime :: runtime where
  "plain_runtime = \<lparr> process_env = env_unset, sys = example_sys, sdk = example_sink,
                      unicode_lower = id, now = js ''2025-01-01T00:00:00.000Z'' \<rparr>"

definition opted_out_runtime :: runtime where
  "opted_out_runtime = \<lparr> process_env = env_do_not_track, sys = example_sys, sdk = example_sink,
                          unicode_lower = id, now = js ''2025-01-01T00:00:00.000Z'' \<rparr>"

definition config_without_credential :: TelemetryConfig where
  "config_without_credential =
     \<lparr> pluginName = js ''@voitanos/heft-stylelint-plugin'', pluginVersion = js ''1.0.0'',
       connectionString = None \<rparr>"

definition config_with_credential :: TelemetryConfig where
  "config_with_credential =
     \<lparr> pluginName = js ''@voitanos/heft-stylelint-plugin'', pluginVersion = js ''1.0.0'',
       connectionString = Some (js ''InstrumentationKey=00000000-0000-0000-0000-000000000000'') \<rparr>"

definition fresh_world :: world where
  "fresh_world = \<lparr> sink_calls = [], random_tape = example_tape,
                    utils_module = \<lparr> cachedTelemetryClientVersion = None, version_lookups = 0 \<rparr> \<rparr>"

definition opted_out_client :: TelemetryClient where
  "opted_out_client = fst (new_TelemetryClient opted_out_runtime config_with_credential fresh_world)"

definition unprovisioned_client :: TelemetryClient where
  "unprovisioned_client = fst (new_TelemetryClient plain_runtime config_without_credential fresh_world)"

definition enabled_client :: TelemetryClient where
  "enabled_client = fst (new_TelemetryClient plain_runtime config_with_credential fresh_world)"

definition enabled_world :: world where
  "enabled_world = snd (new_TelemetryClient plain_runtime config_with_credential fresh_world)"


section \<open>Properties\<close>

subsection \<open>Auxiliary facts\<close>

lemma length_js: "length (js s) = length s"
  by (simp add: js_def)

subsection \<open>Truncation\<close>

text \<open>
  Claim C4. For every input string: if the string obtained after the ordered pattern
  substitutions is longer than 512, \<open>sanitizeErrorMessage\<close> returns its first 509
  code units followed by \<open>...\<close>, a string of length exactly 512 that ends with
  \<open>...\<close>; if it has at most 512 code units, it is returned unchanged.
\<close>

theorem sanitize_truncates_at_512:
  "(512 < length (substitute message) \<longrightarrow>
      sanitizeErrorMessage message = take 509 (substitute message) @ js ''...''
      \<and> length (sanitizeErrorMessage message) = 512
      \<and> suffix (js ''...'') (sanitizeErrorMessage message))
   \<and> (length (substitute message) \<le> 512 \<longrightarrow> sanitizeErrorMessage message = substitute message)"
  by (simp add: sanitizeErrorMessage_def truncateString_def js_def suffix_def)

lemma long_example: "length (substitute (concat (replicate 74 (js ''/a '')))) = 518"
  by code_simp

lemma short_example: "substitute (js ''see /a'') = js ''see [PATH]''"
  by code_simp

theorem sanitize_truncates_at_512_witness:
  "512 < length (substitute (concat (replicate 74 (js ''/a ''))))
   \<and> length (sanitizeErrorMessage (concat (replicate 74 (js ''/a '')))) = 512
   \<and> suffix (js ''...'') (sanitizeErrorMessage (concat (replicate 74 (js ''/a ''))))
   \<and> length (substitute (js ''see /a'')) \<le> 512
   \<and> sanitizeErrorMessage (js ''see /a'') = js ''see [PATH]''"
proof -
  have long: "512 < length (substitute (concat (replicate 74 (js ''/a ''))))"
    by (simp add: long_example)
  have short: "length (substitute (js ''see /a'')) \<le> 512"
    by (simp add: short_example length_js)
  from long sanitize_truncates_at_512 [of "concat (replicate 74 (js ''/a ''))"]
  have "length (sanitizeErrorMessage (concat (replicate 74 (js ''/a '')))) = 512
        \<and> suffix (js ''...'') (sanitizeErrorMessage (concat (replicate 74 (js ''/a ''))))"
    by blast
  moreover from short sanitize_truncates_at_512 [of "js ''see /a''"]
  have "sanitizeErrorMessage (js ''see /a'') = js ''see [PATH]''"
    by (simp add: short_example)
  ultimately show ?thesis using long short by blast
qed

subsection \<open>The example of the specification\<close>

lemma sanitize_example:
  "sanitizeErrorMessage
     (js ''Error at /home/user/project/src/file.ts, contact user@example.com, see https://api.example.com/data'')
   = js ''Error at [PATH], contact [EMAIL], see [URL]''"
  by code_simp

lemma sanitized_example_facts:
  "occurrences (js ''[URL]'') (js ''Error at [PATH], contact [EMAIL], see [URL]'') = 1
   \<and> occurrences (js ''[EMAIL]'') (js ''Error at [PATH], contact [EMAIL], see [URL]'') = 1
   \<and> \<not> includes_js (js ''Error at [PATH], contact [EMAIL], see [URL]'') (js ''/home/user'')
   \<and> \<not> includes_js (js ''Error at [PATH], contact [EMAIL], see [URL]'') (js ''user@example.com'')
   \<and> \<not> includes_js (js ''Error at [PATH], contact [EMAIL], see [URL]'') (js ''https://'')"
  by code_simp

text \<open>
  Claim C8. For the input
  \<open>Error at /home/user/project/src/file.ts, contact user@example.com, see https://api.example.com/data\<close>
  the output of \<open>sanitizeErrorMessage\<close> contains \<open>[URL]\<close> exactly once and
  \<open>[EMAIL]\<close> exactly once, and contains none of \<open>/home/user\<close>,
  \<open>user@example.com\<close> and \<open>https://\<close>.
\<close>

theorem sanitize_example_scenario:
  "occurrences (js ''[URL]'')
     (sanitizeErrorMessage
        (js ''Error at /home/user/project/src/file.ts, contact user@example.com, see https://api.example.com/data'')) = 1
   \<and> occurrences (js ''[EMAIL]'')
     (sanitizeErrorMessage
        (js ''Error at /home/user/project/src/file.ts, contact user@example.com, see https://api.example.com/data'')) = 1
   \<and> \<not> includes_js
     (sanitizeErrorMessage
        (js ''Error at /home/user/project/src/file.ts, contact user@example.com, see https://api.example.com/data''))
     (js ''/home/user'')
   \<and> \<not> includes_js
     (sanitizeErrorMessage
        (js ''Error at /home/user/project/src/file.ts, contact user@example.com, see https://api.example.com/data''))
     (js ''user@example.com'')
   \<and> \<not> includes_js
     (sanitizeErrorMessage
        (js ''Error at /home/user/project/src/file.ts, contact user@example.com, see https://api.example.com/data''))
     (js ''https://'')"
  unfolding sanitize_example by (rule sanitized_example_facts)

subsection \<open>Matches of an expression\<close>

lemma steps_over_trans:
  assumes "steps_over Q x z" "steps_over Q' z y" "\<And>u v. Q u \<Longrightarrow> Q' v \<Longrightarrow> Q'' (u @ v)"
  shows "steps_over Q'' x y"
  using assms unfolding steps_over_def by (metis append.assoc)


lemma repeat_matcher_unfold:
  "repeat_matcher m mn mx x =
     (if mx = Some 0 then [x]
      else concat (map (repeat_matcher m (mn - 1) (map_option (\<lambda>k. k - 1) mx))
                    (filter (\<lambda>y. if mn = 0 then length (snd y) < length (snd x)
                                  else length (snd y) \<le> length (snd x)) (m x)))
           @ (if mn = 0 then [x] else []))"
  by (rule repeat_matcher.simps)

lemma set_repeat_matcher:
  "set (repeat_matcher m mn mx x) =
     (if mx = Some 0 then {x}
      else (\<Union>z \<in> {z \<in> set (m x). if mn = 0 then length (snd z) < length (snd x)
                                      else length (snd z) \<le> length (snd x)}.
              set (repeat_matcher m (mn - 1) (map_option (\<lambda>k. k - 1) mx) z))
           \<union> (if mn = 0 then {x} else {}))"
proof -
  have "set (repeat_matcher m mn mx x) = set (if mx = Some 0 then [x]
      else concat (map (repeat_matcher m (mn - 1) (map_option (\<lambda>k. k - 1) mx))
                    (filter (\<lambda>y. if mn = 0 then length (snd y) < length (snd x)
                                  else length (snd y) \<le> length (snd x)) (m x)))
           @ (if mn = 0 then [x] else []))"
    by (rule arg_cong [where f = set]) (rule repeat_matcher_unfold)
  also have "\<dots> = (if mx = Some 0 then {x}
      else (\<Union>z \<in> {z \<in> set (m x). if mn = 0 then length (snd z) < length (snd x)
                                      else length (snd z) \<le> length (snd x)}.
              set (repeat_matcher m (mn - 1) (map_option (\<lambda>k. k - 1) mx) z))
           \<union> (if mn = 0 then {x} else {}))"
    by (cases "mx = Some 0"; cases "mn = 0") auto
  finally show ?thesis .
qed

lemma repeat_matcher_cases:
  assumes "y \<in> set (repeat_matcher m mn mx x)"
  shows "((mx = Some 0 \<or> mn = 0) \<and> y = x)
       \<or> (mx \<noteq> Some 0 \<and> (\<exists>z \<in> set (m x).
            (if mn = 0 then length (snd z) < length (snd x) else length (snd z) \<le> length (snd x))
            \<and> y \<in> set (repeat_matcher m (mn - 1) (map_option (\<lambda>k. k - 1) mx) z)))"
  using assms unfolding set_repeat_matcher [of m mn mx x]
  by (cases "mx = Some 0"; cases "mn = 0"; fastforce)

lemma repeat_matcher_stop:
  "mx = Some 0 \<or> mn = 0 \<Longrightarrow> x \<in> set (repeat_matcher m mn mx x)"
  unfolding set_repeat_matcher [of m mn mx x] by auto

lemma repeat_matcher_step:
  assumes "mx \<noteq> Some 0" "z \<in> set (m x)"
    "if mn = 0 then length (snd z) < length (snd x) else length (snd z) \<le> length (snd x)"
    "y \<in> set (repeat_matcher m (mn - 1) (map_option (\<lambda>k. k - 1) mx) z)"
  shows "y \<in> set (repeat_matcher m mn mx x)"
proof -
  from assms(2,3) have "z \<in> {z \<in> set (m x). if mn = 0 then length (snd z) < length (snd x)
                                      else length (snd z) \<le> length (snd x)}"
    by simp
  with assms(4) have "y \<in> (\<Union>z \<in> {z \<in> set (m x). if mn = 0 then length (snd z) < length (snd x)
                                      else length (snd z) \<le> length (snd x)}.
              set (repeat_matcher m (mn - 1) (map_option (\<lambda>k. k - 1) mx) z))"
    by blast
  with assms(1) show ?thesis
    unfolding set_repeat_matcher [of m mn mx x] by simp
qed

lemma repeat_matcher_closed:
  assumes m: "\<And>x y. y \<in> set (m x) \<Longrightarrow> steps_over Q x y"
    and nil: "Q []" and app: "\<And>u v. Q u \<Longrightarrow> Q v \<Longrightarrow> Q (u @ v)"
  shows "y \<in> set (repeat_matcher m mn mx x) \<Longrightarrow> steps_over Q x y"
proof (induction "mn + length (snd x)" arbitrary: mn mx x y rule: less_induct)
  case less
  from repeat_matcher_cases [OF less.prems]
  consider (stop) "y = x"
    | (step) z where "z \<in> set (m x)"
        "if mn = 0 then length (snd z) < length (snd x) else length (snd z) \<le> length (snd x)"
        "y \<in> set (repeat_matcher m (mn - 1) (map_option (\<lambda>k. k - 1) mx) z)"
    by blast
  then show ?case
  proof cases
    case stop
    with nil show ?thesis by (simp add: steps_over_def)
  next
    case step
    from step(2) have "(mn - 1) + length (snd z) < mn + length (snd x)"
      by (auto split: if_splits)
    from less.hyps [OF this step(3)] have "steps_over Q z y" .
    with m [OF step(1)] app show ?thesis by (blast intro: steps_over_trans)
  qed
qed

lemma matcher_consumes_only:
  "consumes_only A ic r \<Longrightarrow> y \<in> set (matcher ic r x) \<Longrightarrow> steps_over (list_all A) x y"
proof (induction r arbitrary: x y)
  case Eps
  then show ?case by (simp add: steps_over_def)
next
  case (Chars invert atoms)
  then show ?case
    by (cases x) (auto simp: steps_over_def split: list.splits if_splits)
next
  case (Cat r1 r2)
  from Cat.prems obtain z where "z \<in> set (matcher ic r1 x)" "y \<in> set (matcher ic r2 z)"
    by auto
  with Cat.IH Cat.prems(1) have "steps_over (list_all A) x z" "steps_over (list_all A) z y"
    by auto
  then show ?case by (rule steps_over_trans) simp
next
  case (Rep mn mx r)
  from Rep.prems(2) have "y \<in> set (repeat_matcher (matcher ic r) mn mx x)" by simp
  moreover have "\<And>x y. y \<in> set (matcher ic r x) \<Longrightarrow> steps_over (list_all A) x y"
    using Rep.IH Rep.prems(1) by simp
  ultimately show ?case
    by (rule repeat_matcher_closed [rotated 3]) simp_all
next
  case WordBoundary
  then show ?case by (auto simp: steps_over_def split: if_splits)
qed

lemma matcher_suffix: "y \<in> set (matcher ic r x) \<Longrightarrow> steps_over (\<lambda>u. True) x y"
proof -
  assume y: "y \<in> set (matcher ic r x)"
  have "consumes_only (\<lambda>c. True) ic r" by (induction r) simp_all
  from matcher_consumes_only [OF this y] show ?thesis
    by (auto simp: steps_over_def)
qed


subsection \<open>Matches do not depend on their surroundings\<close>

lemma between_states:
  assumes "steps_over (\<lambda>u. True) (p, a @ w) z" "steps_over (\<lambda>u. True) z (q, b @ w)"
  obtains c where "snd z = c @ w" "length b \<le> length c" "length c \<le> length a"
proof -
  from assms obtain u v where u: "a @ w = u @ snd z" and v: "snd z = v @ b @ w"
    by (auto simp: steps_over_def)
  from u v have "a = u @ v @ b" by simp
  with v that [of "v @ b"] show thesis by simp
qed

lemma repeat_matcher_transfers:
  assumes suffix: "\<And>x y. y \<in> set (m x) \<Longrightarrow> steps_over (\<lambda>u. True) x y"
    and m: "transfers m"
  shows "(q, b @ w) \<in> set (repeat_matcher m mn mx (p, a @ w)) \<Longrightarrow>
         \<exists>q'. (q', b @ w') \<in> set (repeat_matcher m mn mx (p', a @ w'))"
proof (induction "mn + length a" arbitrary: mn mx p a p' rule: less_induct)
  case less
  from repeat_matcher_cases [OF less.prems]
  consider (stop) "mx = Some 0 \<or> mn = 0" "(q, b @ w) = (p, a @ w)"
    | (step) z where "mx \<noteq> Some 0" "z \<in> set (m (p, a @ w))"
        "if mn = 0 then length (snd z) < length (a @ w) else length (snd z) \<le> length (a @ w)"
        "(q, b @ w) \<in> set (repeat_matcher m (mn - 1) (map_option (\<lambda>k. k - 1) mx) z)"
    by (elim disjE conjE bexE) (simp_all only: snd_conv, blast+)
  then show ?case
  proof cases
    case stop
    then have "b = a" by simp
    with repeat_matcher_stop [OF stop(1), of "(p', a @ w')" m] show ?thesis by blast
  next
    case step
    have "steps_over (\<lambda>u. True) z (q, b @ w)"
      using step(4) by (rule repeat_matcher_closed [rotated 3]) (simp_all add: suffix)
    from between_states [OF suffix [OF step(2)] this]
    obtain c where c: "snd z = c @ w" "length b \<le> length c" "length c \<le> length a" by blast
    then have z: "z = (fst z, c @ w)" by (cases z) simp
    from step(2) z m obtain pz' where z': "(pz', c @ w') \<in> set (m (p', a @ w'))"
      unfolding transfers_def by metis
    from step(3) c(1) have shorter: "if mn = 0 then length c < length a else length c \<le> length a"
      by (auto split: if_splits)
    then have "(mn - 1) + length c < mn + length a" by (auto split: if_splits)
    from less.hyps [OF this, of "map_option (\<lambda>k. k - 1) mx" "fst z" pz'] step(4) z
    obtain q' where "(q', b @ w') \<in> set (repeat_matcher m (mn - 1) (map_option (\<lambda>k. k - 1) mx) (pz', c @ w'))"
      by metis
    moreover from shorter
    have "if mn = 0 then length (snd (pz', c @ w')) < length (snd (p', a @ w'))
          else length (snd (pz', c @ w')) \<le> length (snd (p', a @ w'))"
      by (auto split: if_splits)
    ultimately have "(q', b @ w') \<in> set (repeat_matcher m mn mx (p', a @ w'))"
      using step(1) z' by (blast intro: repeat_matcher_step)
    then show ?thesis by blast
  qed
qed

lemma matcher_transfers: "assertion_free r \<Longrightarrow> transfers (matcher ic r)"
proof (induction r)
  case Eps
  then show ?case by (simp add: transfers_def)
next
  case (Chars invert atoms)
  show ?case
    unfolding transfers_def
  proof (intro allI impI)
    fix p a w q b p' w'
    assume "(q, b @ w) \<in> set (matcher ic (Chars invert atoms) (p, a @ w))"
    then obtain c where c: "a @ w = c # b @ w" "class_mem ic invert atoms c"
      by (auto split: list.splits if_splits)
    then have "a = c # b" by simp
    with c(2) show "\<exists>q'. (q', b @ w') \<in> set (matcher ic (Chars invert atoms) (p', a @ w'))"
      by simp
  qed
next
  case (Cat r1 r2)
  then have t1: "transfers (matcher ic r1)" and t2: "transfers (matcher ic r2)" by simp_all
  show ?case
    unfolding transfers_def
  proof (intro allI impI)
    fix p a w q b p' w'
    assume "(q, b @ w) \<in> set (matcher ic (Cat r1 r2) (p, a @ w))"
    then obtain z where z: "z \<in> set (matcher ic r1 (p, a @ w))" "(q, b @ w) \<in> set (matcher ic r2 z)"
      by auto
    from between_states [OF matcher_suffix [OF z(1)] matcher_suffix [OF z(2)]]
    obtain c where c: "snd z = c @ w" by blast
    then have zz: "z = (fst z, c @ w)" by (cases z) simp
    from z(1) zz t1 obtain pz' where z': "(pz', c @ w') \<in> set (matcher ic r1 (p', a @ w'))"
      unfolding transfers_def by metis
    from z(2) zz t2 obtain q' where "(q', b @ w') \<in> set (matcher ic r2 (pz', c @ w'))"
      unfolding transfers_def by metis
    with z' show "\<exists>q'. (q', b @ w') \<in> set (matcher ic (Cat r1 r2) (p', a @ w'))"
      by auto
  qed
next
  case (Rep mn mx r)
  then have "transfers (matcher ic r)" by simp
  then show ?case
    unfolding transfers_def [of "matcher ic (Rep mn mx r)"]
    using repeat_matcher_transfers [of "matcher ic r", OF matcher_suffix]
    by simp
next
  case WordBoundary
  then show ?case by simp
qed

subsection \<open>Replacing all matches\<close>


lemma match_at_None: "match_at ic r x = None \<longleftrightarrow> matcher ic r x = []"
  by (auto simp: match_at_def split: list.splits)













subsection \<open>The patterns of the sanitizer\<close>























subsection \<open>What a pass cannot create\<close>

lemma match_at_transfers:
  assumes t: "transfers (matcher ic r)" and y: "y \<in> set (matcher ic r (p, s))"
    and u: "s = u @ snd y" and s': "prefix u s'"
  shows "match_at ic r (p', s') \<noteq> None"
proof -
  from s' obtain w' where w': "s' = u @ w'" by (auto simp: prefix_def)
  have "matcher ic r (p, u @ snd y) = matcher ic r (p, s)" by (simp only: u [symmetric])
  with y have "(fst y, [] @ snd y) \<in> set (matcher ic r (p, u @ snd y))" by simp
  with t obtain q' where "(q', [] @ w') \<in> set (matcher ic r (p', u @ w'))"
    unfolding transfers_def by metis
  with w' show ?thesis by (auto simp: match_at_None)
qed

lemma match_at_context_free:
  assumes "transfers (matcher ic r)"
  shows "match_at ic r (p, s) = None \<longleftrightarrow> match_at ic r (p', s) = None"
proof -
  have one: "match_at ic r (b, s) \<noteq> None" if "match_at ic r (a, s) \<noteq> None" for a b
  proof -
    from that obtain y where y: "y \<in> set (matcher ic r (a, s))"
      by (cases "matcher ic r (a, s)") (auto simp: match_at_None)
    from matcher_suffix [OF y] obtain u where u: "s = u @ snd y" by (auto simp: steps_over_def)
    then have "prefix u s" by (simp add: prefix_def)
    from match_at_transfers [OF assms y u this] show ?thesis .
  qed
  from one [of p p'] one [of p' p] show ?thesis by blast
qed







subsection \<open>The URL pattern\<close>

lemma in_matcher_Cat:
  "y \<in> set (matcher ic (Cat a b) x) \<longleftrightarrow> (\<exists>z. z \<in> set (matcher ic a x) \<and> y \<in> set (matcher ic b z))"
  by auto

lemma in_matcher_lit:
  "y \<in> set (matcher False (lit c) (p, s)) \<longleftrightarrow> (\<exists>xs. s = cu c # xs \<and> y = (Some (cu c), xs))"
  by (auto simp: lit_def class_mem_def split: list.splits)

lemma str_Cons: "str (c # cs) = Cat (lit c) (str cs)"
  by (simp add: str_def seq_def)

lemma str_Nil: "str [] = Eps"
  by (simp add: str_def seq_def)

lemma js_Cons: "js (c # cs) = cu c # js cs"
  by (simp add: js_def cu_def)

lemma in_matcher_str:
  "(\<exists>q. (q, rest) \<in> set (matcher False (str cs) (p, s))) \<longleftrightarrow> s = js cs @ rest"
proof (induction cs arbitrary: p s)
  case Nil
  then show ?case by (auto simp: str_Nil js_def)
next
  case (Cons c cs)
  have "(\<exists>q. (q, rest) \<in> set (matcher False (str (c # cs)) (p, s)))
        \<longleftrightarrow> (\<exists>xs. s = cu c # xs \<and> (\<exists>q. (q, rest) \<in> set (matcher False (str cs) (Some (cu c), xs))))"
    unfolding str_Cons in_matcher_Cat in_matcher_lit by blast
  also have "\<dots> \<longleftrightarrow> (\<exists>xs. s = cu c # xs \<and> xs = js cs @ rest)"
    unfolding Cons.IH ..
  also have "\<dots> \<longleftrightarrow> s = js (c # cs) @ rest"
    unfolding js_Cons by auto
  finally show ?case .
qed

lemma nonempty_iff: "xs \<noteq> [] \<longleftrightarrow> (\<exists>y. y \<in> set xs)"
  by (cases xs) auto

lemma nonempty_context_free:
  assumes "assertion_free r"
  shows "matcher ic r (p, s) \<noteq> [] \<longleftrightarrow> matcher ic r (p', s) \<noteq> []"
  using match_at_context_free [OF matcher_transfers [OF assms], of ic p s p']
  by (simp add: match_at_None)

text \<open>Whether an expression without assertions matches at the beginning of a string.\<close>

lemma accepts_str_then:
  assumes "assertion_free b"
  shows "matcher False (Cat (str cs) b) (p, s) \<noteq> [] \<longleftrightarrow>
         (\<exists>rest. s = js cs @ rest \<and> matcher False b (None, rest) \<noteq> [])"
proof -
  have "matcher False (Cat (str cs) b) (p, s) \<noteq> [] \<longleftrightarrow>
        (\<exists>q rest. (q, rest) \<in> set (matcher False (str cs) (p, s)) \<and> matcher False b (q, rest) \<noteq> [])"
    unfolding nonempty_iff in_matcher_Cat by auto
  also have "\<dots> \<longleftrightarrow>
        (\<exists>rest. (\<exists>q. (q, rest) \<in> set (matcher False (str cs) (p, s))) \<and> matcher False b (None, rest) \<noteq> [])"
    using nonempty_context_free [OF assms, of False _ _ None] by blast
  finally show ?thesis unfolding in_matcher_str .
qed

lemma set_optional:
  "set (matcher ic (optional r) x) =
     {z \<in> set (matcher ic r x). length (snd z) < length (snd x)} \<union> {x}"
proof -
  have one: "set (repeat_matcher m 0 (Some 0) z) = {z}" for m and z :: mstate
    using set_repeat_matcher [of m 0 "Some 0" z] by simp
  have "set (repeat_matcher m 0 (Some 1) x) =
      {z \<in> set (m x). length (snd z) < length (snd x)} \<union> {x}" for m
    using set_repeat_matcher [of m 0 "Some 1" x] by (simp add: one)
  then show ?thesis by (simp add: optional_def)
qed

lemma accepts_optional_lit_then:
  assumes "assertion_free b"
  shows "matcher False (Cat (optional (lit c)) b) (p, s) \<noteq> [] \<longleftrightarrow>
         (matcher False b (None, s) \<noteq> []
          \<or> (\<exists>rest. s = cu c # rest \<and> matcher False b (None, rest) \<noteq> []))"
proof -
  have "matcher False (Cat (optional (lit c)) b) (p, s) \<noteq> [] \<longleftrightarrow>
        (\<exists>z. z \<in> set (matcher False (optional (lit c)) (p, s)) \<and> matcher False b z \<noteq> [])"
    unfolding nonempty_iff in_matcher_Cat by auto
  also have "\<dots> \<longleftrightarrow> (matcher False b (p, s) \<noteq> []
          \<or> (\<exists>z. z \<in> set (matcher False (lit c) (p, s)) \<and> length (snd z) < length s
                  \<and> matcher False b z \<noteq> []))"
    unfolding set_optional by auto
  also have "\<dots> \<longleftrightarrow> (matcher False b (p, s) \<noteq> []
          \<or> (\<exists>rest. s = cu c # rest \<and> matcher False b (Some (cu c), rest) \<noteq> []))"
    unfolding in_matcher_lit by auto
  finally show ?thesis
    using nonempty_context_free [OF assms, of False _ _ None] by blast
qed

lemma accepts_plus_class:
  "matcher ic (Cat (plus (Chars invert atoms)) Eps) (p, s) \<noteq> [] \<longleftrightarrow>
     (\<exists>x xs. s = x # xs \<and> class_mem ic invert atoms x)"
proof -
  let ?m = "matcher ic (Chars invert atoms)"
  have "matcher ic (Cat (plus (Chars invert atoms)) Eps) (p, s) \<noteq> []
        \<longleftrightarrow> (\<exists>y. y \<in> set (repeat_matcher ?m 1 None (p, s)))"
    unfolding nonempty_iff in_matcher_Cat by (simp add: plus_def)
  also have "\<dots> \<longleftrightarrow> (\<exists>x xs. s = x # xs \<and> class_mem ic invert atoms x)"
  proof
    assume "\<exists>y. y \<in> set (repeat_matcher ?m 1 None (p, s))"
    then obtain y where "y \<in> set (repeat_matcher ?m 1 None (p, s))" ..
    from repeat_matcher_cases [OF this]
    obtain z where "z \<in> set (?m (p, s))" by auto
    then show "\<exists>x xs. s = x # xs \<and> class_mem ic invert atoms x"
      by (auto split: list.splits if_splits)
  next
    assume "\<exists>x xs. s = x # xs \<and> class_mem ic invert atoms x"
    then obtain x xs where x: "s = x # xs" "class_mem ic invert atoms x" by blast
    then have z: "(Some x, xs) \<in> set (?m (p, s))" by simp
    have stop: "(Some x, xs) \<in> set (repeat_matcher ?m (1 - 1) (map_option (\<lambda>k. k - 1) None) (Some x, xs))"
      by (rule repeat_matcher_stop) simp
    have "(Some x, xs) \<in> set (repeat_matcher ?m 1 None (p, s))"
      by (rule repeat_matcher_step [OF _ z _ stop]) (simp_all add: x(1))
    then show "\<exists>y. y \<in> set (repeat_matcher ?m 1 None (p, s))" ..
  qed
  finally show ?thesis .
qed

lemma url_rx:
  "rx url_pattern = Cat (str ''http'') (Cat (optional (lit CHR ''s''))
      (Cat (str ''://'') (Cat (plus (Chars True [WhiteSpace])) Eps)))"
  by (simp add: url_pattern_def seq_def)

lemma url_match_iff:
  "match_at (ignoreCase url_pattern) (rx url_pattern) (p, s) \<noteq> None \<longleftrightarrow> starts_url s"
proof -
  have ic: "ignoreCase url_pattern = False" by (simp add: url_pattern_def)
  have free: "assertion_free (Cat (plus (Chars True [WhiteSpace])) Eps)"
    "assertion_free (Cat (str ''://'') (Cat (plus (Chars True [WhiteSpace])) Eps))"
    "assertion_free (Cat (optional (lit CHR ''s''))
        (Cat (str ''://'') (Cat (plus (Chars True [WhiteSpace])) Eps)))"
    by (simp_all add: str_def seq_def lit_def optional_def plus_def)
  have nonspace: "class_mem False True [WhiteSpace] x \<longleftrightarrow> \<not> is_space x" for x
    by (simp add: class_mem_def)
  have "match_at (ignoreCase url_pattern) (rx url_pattern) (p, s) \<noteq> None \<longleftrightarrow>
        (\<exists>r1. s = js ''http'' @ r1 \<and>
           ((\<exists>r3. r1 = js ''://'' @ r3 \<and> (\<exists>x xs. r3 = x # xs \<and> \<not> is_space x))
            \<or> (\<exists>r2. r1 = cu CHR ''s'' # r2 \<and>
                  (\<exists>r3. r2 = js ''://'' @ r3 \<and> (\<exists>x xs. r3 = x # xs \<and> \<not> is_space x)))))"
    unfolding match_at_None ic url_rx
      accepts_str_then [OF free(3)] accepts_optional_lit_then [OF free(2)]
      accepts_str_then [OF free(1)] accepts_plus_class nonspace ..
  also have "\<dots> \<longleftrightarrow> starts_url s"
    unfolding starts_url_def by (auto simp: js_def cu_def)
  finally show ?thesis .
qed

subsection \<open>No pass creates a URL\<close>









lemma starts_url_Nil: "\<not> starts_url []"
  by (simp add: starts_url_def js_def)




subsection \<open>What the six passes leave\<close>










lemma test_url_iff: "test url_pattern s \<longleftrightarrow> contains_url s"
proof -
  have "finds url_pattern (p, s) \<longleftrightarrow> contains_url s" for p
  proof (induction s arbitrary: p)
    case Nil
    show ?case using url_match_iff [of p "[]"] starts_url_Nil
      by (simp add: contains_url_def)
  next
    case (Cons c cs)
    have "contains_url (c # cs) \<longleftrightarrow> starts_url (c # cs) \<or> contains_url cs"
      unfolding contains_url_def
    proof
      assume "\<exists>pre t. c # cs = pre @ t \<and> starts_url t"
      then obtain pre t where pt: "c # cs = pre @ t" "starts_url t" by blast
      show "starts_url (c # cs) \<or> (\<exists>pre t. cs = pre @ t \<and> starts_url t)"
      proof (cases pre)
        case Nil
        with pt show ?thesis by simp
      next
        case (Cons a pre')
        with pt have "cs = pre' @ t" by simp
        with pt(2) show ?thesis by blast
      qed
    next
      assume "starts_url (c # cs) \<or> (\<exists>pre t. cs = pre @ t \<and> starts_url t)"
      then show "\<exists>pre t. c # cs = pre @ t \<and> starts_url t"
      proof
        assume "starts_url (c # cs)"
        then have "c # cs = [] @ (c # cs) \<and> starts_url (c # cs)" by simp
        then show ?thesis by blast
      next
        assume "\<exists>pre t. cs = pre @ t \<and> starts_url t"
        then obtain pre t where "cs = pre @ t" "starts_url t" by blast
        then have "c # cs = (c # pre) @ t \<and> starts_url t" by simp
        then show ?thesis by blast
      qed
    qed
    with Cons [of "Some c"] url_match_iff [of p "c # cs"] show ?case by simp
  qed
  then show ?thesis by (simp add: test_def)
qed

subsection \<open>Redaction\<close>


text \<open>
  A match of the IPv4 pattern can come into being behind a token: in
  \<open>123e4567-e89b-12d3-a456-4266141740001.2.3.4\<close> the address follows a word character
  until the UUID in front of it is replaced.
\<close>

lemma ip_match_remains:
  "substitute (js ''123e4567-e89b-12d3-a456-4266141740001.2.3.4'') = js ''[UUID]1.2.3.4''"
  "test ip_pattern (js ''[UUID]1.2.3.4'')"
  by code_simp+






subsection \<open>Opt-out gate\<close>

lemma js_true: "js ''true'' = [116, 114, 117, 101]"
  by (simp add: js_def)

lemma ascii_lower_true:
  "map ascii_lower s = js ''true'' \<longleftrightarrow> equals_ignoring_case s (js ''true'')"
  unfolding js_true equals_ignoring_case_def
  by (auto simp: list_all2_Cons2 ascii_lower_def is_upper_def same_letter_def split: if_splits)

lemma ignoring_case_true_ascii:
  "equals_ignoring_case s (js ''true'') \<Longrightarrow> list_all is_ascii s"
  unfolding js_true equals_ignoring_case_def
  by (auto simp: list_all2_Cons2 is_upper_def same_letter_def is_ascii_def)

lemma opts_out_iff:
  assumes "\<And>s. \<not> list_all is_ascii s \<Longrightarrow> ul s \<noteq> js ''true''"
  shows "opts_out ul v \<longleftrightarrow> (\<exists>s. v = Some s \<and> (s = js ''1'' \<or> equals_ignoring_case s (js ''true'')))"
proof (cases v)
  case None
  then show ?thesis by (simp add: opts_out_def)
next
  case (Some s)
  show ?thesis
  proof (cases "list_all is_ascii s")
    case True
    with Some show ?thesis
      by (simp add: opts_out_def toLowerCase_def ascii_lower_true)
  next
    case False
    with assms have "ul s \<noteq> js ''true''" by blast
    moreover from False have "\<not> equals_ignoring_case s (js ''true'')"
      using ignoring_case_true_ascii by blast
    ultimately show ?thesis using Some False
      by (simp add: opts_out_def toLowerCase_def)
  qed
qed

lemma opt_out_loop_iff: "opt_out_loop ul e vars \<longleftrightarrow> (\<exists>v \<in> set vars. opts_out ul (e v))"
  by (induction vars) auto

text \<open>
  Claim C5. \<open>isTelemetryDisabled\<close> returns true if and only if at least one of
  HEFT_TELEMETRY_DISABLED, DISABLE_TELEMETRY, DO_NOT_TRACK and TELEMETRY_DISABLED is set
  to \<open>1\<close> or to a value that equals \<open>true\<close> up to case; with all four unset or set to
  anything else it returns false. The Unicode tables of the runtime enter through one
  fact: no string with a non-ASCII code unit is lowered to \<open>true\<close>.
\<close>

theorem isTelemetryDisabled_iff:
  assumes "\<And>s. \<not> list_all is_ascii s \<Longrightarrow> ul s \<noteq> js ''true''"
  shows "isTelemetryDisabled ul e \<longleftrightarrow>
         (\<exists>v \<in> {''HEFT_TELEMETRY_DISABLED'', ''DISABLE_TELEMETRY'', ''DO_NOT_TRACK'', ''TELEMETRY_DISABLED''}.
            \<exists>s. e v = Some s \<and> (s = js ''1'' \<or> equals_ignoring_case s (js ''true'')))"
  by (simp add: isTelemetryDisabled_def opt_out_loop_iff opts_out_iff [OF assms]
        TELEMETRY_OPT_OUT_VARS_def)

theorem isTelemetryDisabled_iff_witness:
  "isTelemetryDisabled id env_do_not_track
   \<and> env_do_not_track ''DO_NOT_TRACK'' = Some (js ''TRUE'')
   \<and> equals_ignoring_case (js ''TRUE'') (js ''true'')
   \<and> \<not> isTelemetryDisabled id env_unset"
proof -
  have id_ok: "id s \<noteq> js ''true''" if "\<not> list_all is_ascii s" for s
    using that by (auto simp: js_true is_ascii_def)
  have set: "env_do_not_track ''DO_NOT_TRACK'' = Some (js ''TRUE'')"
    by (simp add: env_do_not_track_def)
  have same: "equals_ignoring_case (js ''TRUE'') (js ''true'')"
    by (simp add: equals_ignoring_case_def same_letter_def is_upper_def js_def)
  have "isTelemetryDisabled id env_do_not_track"
    using isTelemetryDisabled_iff [of id env_do_not_track, OF id_ok] set same by blast
  moreover have "\<not> isTelemetryDisabled id env_unset"
    using isTelemetryDisabled_iff [of id env_unset, OF id_ok] by (simp add: env_unset_def)
  ultimately show ?thesis using set same by blast
qed

subsection \<open>Session id\<close>

lemma hex_digit_lower_hex: "n < 16 \<Longrightarrow> is_lower_hex (hex_digit n)"
  by (auto simp: hex_digit_def is_lower_hex_def)

lemma hex_digit_inj: "m < 16 \<Longrightarrow> n < 16 \<Longrightarrow> hex_digit m = hex_digit n \<Longrightarrow> m = n"
  by (auto simp: hex_digit_def split: if_splits)

lemma unat_byte_div: "unat (b :: 8 word) div 16 < 16"
proof -
  have "unat b < 2 ^ LENGTH(8)" by (rule unsigned_less)
  then have "unat b < 256" by simp
  then show ?thesis by simp
qed

lemma hex_byte_inj: "hex_byte a = hex_byte b \<Longrightarrow> a = b"
proof -
  assume h: "hex_byte a = hex_byte b"
  then have "unat a div 16 = unat b div 16" and "unat a mod 16 = unat b mod 16"
    using hex_digit_inj [OF unat_byte_div unat_byte_div, of a b]
          hex_digit_inj [of "unat a mod 16" "unat b mod 16"]
    by (auto simp: hex_byte_def)
  then have "unat a = unat b"
    by (metis div_mult_mod_eq)
  then show "a = b" by (simp add: word_unat_eq_iff)
qed

lemma toString_hex_inj: "toString_hex xs = toString_hex ys \<Longrightarrow> xs = ys"
proof (induction xs arbitrary: ys)
  case Nil
  then show ?case by (cases ys) (auto simp: toString_hex_def hex_byte_def)
next
  case (Cons x xs)
  show ?case
  proof (cases ys)
    case Nil
    with Cons.prems show ?thesis by (auto simp: toString_hex_def hex_byte_def)
  next
    case (Cons y ys')
    with Cons.prems have "hex_byte x = hex_byte y" and "toString_hex xs = toString_hex ys'"
      by (auto simp: toString_hex_def hex_byte_def)
    with Cons.IH Cons show ?thesis using hex_byte_inj by blast
  qed
qed

lemma toString_hex_length: "length (toString_hex xs) = 2 * length xs"
  by (induction xs) (auto simp: toString_hex_def hex_byte_def)

lemma toString_hex_lower: "list_all is_lower_hex (toString_hex xs)"
  by (induction xs) (auto simp: toString_hex_def hex_byte_def hex_digit_lower_hex unat_byte_div)

text \<open>
  Claim C9. \<open>generateSessionId\<close> returns the lower-case hexadecimal encoding of the
  next 16 bytes of the random source: a string of 32 characters, each in \<open>0-9a-f\<close>. Two
  calls (on any two sources, or one after the other on the same source) return equal ids
  only when their 16 bytes coincide. That the source is cryptographically secure is a
  property of \<open>node:crypto\<close>, of which the model has the delivered bytes only.
\<close>

theorem generateSessionId_format_and_injective:
  "fst (generateSessionId tape) = toString_hex (map tape [0..<16])
   \<and> session_id_format (fst (generateSessionId tape))
   \<and> (fst (generateSessionId tape) = fst (generateSessionId tape') \<longrightarrow>
         map tape [0..<16] = map tape' [0..<16])
   \<and> (fst (generateSessionId tape) = fst (generateSessionId (snd (generateSessionId tape))) \<longrightarrow>
         map tape [0..<16] = map tape [16..<32])"
proof -
  have first: "fst (generateSessionId t) = toString_hex (map t [0..<16])" for t
    by (simp add: generateSessionId_def randomBytes_def)
  have second: "fst (generateSessionId (snd (generateSessionId tape))) = toString_hex (map tape [16..<32])"
  proof -
    have "map (\<lambda>i. tape (i + 16)) [0..<16] = map tape (map (\<lambda>i. i + 16) [0..<16])"
      by simp
    also have "map (\<lambda>i. i + 16) [0..<16] = [16..<32]"
      by (simp add: map_add_upt)
    finally show ?thesis by (simp add: generateSessionId_def randomBytes_def)
  qed
  have inj: "toString_hex xs = toString_hex ys \<longrightarrow> xs = ys" for xs ys
    using toString_hex_inj by blast
  show ?thesis
    unfolding second unfolding first
    by (simp add: session_id_format_def toString_hex_length toString_hex_lower inj del: map_eq_conv)
qed

lemma session_id_examples:
  "fst (generateSessionId example_tape) = js ''052a4f7499bee3082d52779cc1e60b30''
   \<and> fst (generateSessionId example_tape') = js ''052a4f7499bee3082d52779cc1e60b30''
   \<and> fst (generateSessionId (snd (generateSessionId example_tape))) = js ''052a4f7499bee3082d52779cc1e60b30''
   \<and> fst (generateSessionId (snd (generateSessionId example_tape'))) = js ''557a9fc4e90e33587da2c7ec11365b80''"
  by code_simp

theorem generateSessionId_format_and_injective_witness:
  "fst (generateSessionId example_tape) = js ''052a4f7499bee3082d52779cc1e60b30''
   \<and> session_id_format (js ''052a4f7499bee3082d52779cc1e60b30'')
   \<and> fst (generateSessionId example_tape) = fst (generateSessionId example_tape')
   \<and> map example_tape [0..<16] = map example_tape' [0..<16]
   \<and> fst (generateSessionId example_tape) = fst (generateSessionId (snd (generateSessionId example_tape)))
   \<and> map example_tape [0..<16] = map example_tape [16..<32]"
proof -
  note ex = session_id_examples
  have same: "fst (generateSessionId example_tape) = fst (generateSessionId example_tape')"
    by (simp only: ex)
  have again: "fst (generateSessionId example_tape)
      = fst (generateSessionId (snd (generateSessionId example_tape)))"
    by (simp only: ex)
  note inst = generateSessionId_format_and_injective [of example_tape example_tape']
  from inst have "session_id_format (fst (generateSessionId example_tape))" by blast
  then have "session_id_format (js ''052a4f7499bee3082d52779cc1e60b30'')"
    by (simp only: ex)
  moreover from inst same have "map example_tape [0..<16] = map example_tape' [0..<16]"
    by blast
  moreover from inst again have "map example_tape [0..<16] = map example_tape [16..<32]"
    by blast
  ultimately show ?thesis using same again ex by blast
qed

subsection \<open>The client\<close>

lemma new_client_opted_out:
  assumes "isTelemetryDisabled (unicode_lower rt) (process_env rt)"
  shows "private_enabled (fst (new_TelemetryClient rt config w)) = False"
    and "private_client (fst (new_TelemetryClient rt config w)) = None"
    and "sink_calls (snd (new_TelemetryClient rt config w)) = sink_calls w"
  using assms by (simp_all add: new_TelemetryClient_def Let_def)

lemma new_client_invalid_credential:
  assumes "\<not> isValidConnectionString (getConnectionString (process_env rt) (connectionString config))"
  shows "private_enabled (fst (new_TelemetryClient rt config w)) = False"
    and "private_client (fst (new_TelemetryClient rt config w)) = None"
    and "sink_calls (snd (new_TelemetryClient rt config w)) = sink_calls w"
  using assms by (simp_all add: new_TelemetryClient_def Let_def)

lemma inactive_noop:
  assumes "inactive c"
  shows "trackPluginInstalled rt c w = Returns w"
    and "trackPluginStarted rt c w = Returns w"
    and "trackPluginCompleted rt c d outcome n w = Returns w"
    and "trackPluginError rt c err d w = Returns w"
    and "trackPluginWarning rt c category message w = Returns w"
    and "flush rt c w = (Resolved 0, w)"
  using assms
  by (simp_all add: trackPluginInstalled_def trackPluginStarted_def trackPluginCompleted_def
        trackPluginError_def trackPluginWarning_def flush_def)

lemma constructed_enabled_has_client:
  "private_enabled (fst (new_TelemetryClient rt config w)) \<Longrightarrow>
   private_client (fst (new_TelemetryClient rt config w)) = Some DefaultClient"
  by (auto simp: new_TelemetryClient_def Let_def sink_call_def split: if_splits)

lemma try_await_flush_race: "\<exists>t\<le>2000. try_await (flush_race r) = Resolved t"
  by (cases r) (auto simp: flush_race_def)

lemma opted_out_example:
  "isTelemetryDisabled (unicode_lower opted_out_runtime) (process_env opted_out_runtime)"
  by code_simp

lemma not_opted_out_example:
  "\<not> isTelemetryDisabled (unicode_lower plain_runtime) (process_env plain_runtime)"
  by code_simp

lemma enabled_client_enabled: "isEnabled enabled_client"
  by code_simp

text \<open>
  Claim C1. A client constructed while an opt-out variable is active is disabled:
  \<open>isEnabled\<close> is false, its construction makes no call to the sink, every tracking
  operation returns at once without an exception and leaves the world (the calls the sink
  has seen included) as it was, and \<open>flush\<close> resolves immediately. The fields of a
  client are read-only: no operation yields a changed client.
\<close>

theorem opted_out_client_is_inert:
  assumes "isTelemetryDisabled (unicode_lower rt0) (process_env rt0)"
    and "new_TelemetryClient rt0 config w0 = (c, w1)"
  shows "\<not> isEnabled c
    \<and> sink_calls w1 = sink_calls w0
    \<and> trackPluginInstalled rt c w = Returns w
    \<and> trackPluginStarted rt c w = Returns w
    \<and> trackPluginCompleted rt c durationMs outcome warningCount w = Returns w
    \<and> trackPluginError rt c err durationMs w = Returns w
    \<and> trackPluginWarning rt c category message w = Returns w
    \<and> flush rt c w = (Resolved 0, w)"
proof -
  from assms(2) have c: "c = fst (new_TelemetryClient rt0 config w0)"
    and w1: "w1 = snd (new_TelemetryClient rt0 config w0)" by simp_all
  have off: "\<not> private_enabled c" and "sink_calls w1 = sink_calls w0"
    unfolding c w1 using new_client_opted_out [OF assms(1)] by simp_all
  moreover from off have "inactive c" by (simp add: inactive_def)
  ultimately show ?thesis
    by (simp add: inactive_noop isEnabled_def)
qed

theorem opted_out_client_is_inert_witness:
  "isTelemetryDisabled (unicode_lower opted_out_runtime) (process_env opted_out_runtime)
   \<and> \<not> isEnabled opted_out_client
   \<and> trackPluginCompleted plain_runtime opted_out_client 1500 OutcomeSuccess 0 enabled_world
       = Returns enabled_world
   \<and> trackPluginError plain_runtime opted_out_client (NonError None) 1500 enabled_world
       = Returns enabled_world
   \<and> flush plain_runtime opted_out_client enabled_world = (Resolved 0, enabled_world)"
proof -
  have made: "new_TelemetryClient opted_out_runtime config_with_credential fresh_world
          = (opted_out_client, snd (new_TelemetryClient opted_out_runtime config_with_credential fresh_world))"
    by (simp add: opted_out_client_def)
  show ?thesis
    using opted_out_client_is_inert [OF opted_out_example made] opted_out_example by blast
qed

text \<open>
  Claim C2. \<open>flush\<close> always resolves and never rejects, at the latest 2000 ms after
  the call. On a disabled client it resolves immediately. On an enabled client it
  resolves when the callback of the sink or the timer of 2000 ms fires, whichever is
  first, so also when the sink never calls back; when the flush of the sink throws, the
  exception is discarded and \<open>flush\<close> resolves.
\<close>

theorem flush_always_resolves:
  "(\<exists>t\<le>2000. fst (flush rt c w) = Resolved t)
   \<and> (\<not> isEnabled c \<longrightarrow> flush rt c w = (Resolved 0, w))
   \<and> (isEnabled c \<and> c = fst (new_TelemetryClient rt0 config w0) \<longrightarrow>
        fst (flush rt c w) =
          (case flush_reaction (sdk rt) of
             FlushThrows \<Rightarrow> Resolved 0
           | CallbackAfter t \<Rightarrow> Resolved (min t 2000)
           | NoCallback \<Rightarrow> Resolved 2000))"
proof -
  have "\<exists>t\<le>2000. fst (flush rt c w) = Resolved t"
    using try_await_flush_race [of "flush_reaction (sdk rt)"] by (auto simp: flush_def)
  moreover have "\<not> isEnabled c \<longrightarrow> flush rt c w = (Resolved 0, w)"
    by (simp add: flush_def inactive_def isEnabled_def)
  moreover have "isEnabled c \<and> c = fst (new_TelemetryClient rt0 config w0) \<longrightarrow>
        fst (flush rt c w) =
          (case flush_reaction (sdk rt) of
             FlushThrows \<Rightarrow> Resolved 0
           | CallbackAfter t \<Rightarrow> Resolved (min t 2000)
           | NoCallback \<Rightarrow> Resolved 2000)"
    using constructed_enabled_has_client [of rt0 config w0]
    by (auto simp: flush_def inactive_def isEnabled_def flush_race_def split: flush_reaction.splits)
  ultimately show ?thesis by blast
qed

theorem flush_always_resolves_witness:
  "\<not> isEnabled opted_out_client
   \<and> flush plain_runtime opted_out_client enabled_world = (Resolved 0, enabled_world)
   \<and> isEnabled enabled_client
   \<and> flush_reaction (sdk plain_runtime) = NoCallback
   \<and> fst (flush plain_runtime enabled_client enabled_world) = Resolved 2000"
proof -
  have off: "\<not> isEnabled opted_out_client"
    using new_client_opted_out(1) [OF opted_out_example]
    by (simp add: opted_out_client_def isEnabled_def)
  have silent: "flush_reaction (sdk plain_runtime) = NoCallback"
    by (simp add: plain_runtime_def example_sink_def)
  have "flush plain_runtime opted_out_client enabled_world = (Resolved 0, enabled_world)"
    using flush_always_resolves [of plain_runtime opted_out_client enabled_world] off by blast
  moreover have "fst (flush plain_runtime enabled_client enabled_world) = Resolved 2000"
    using flush_always_resolves
            [of plain_runtime enabled_client enabled_world plain_runtime config_with_credential fresh_world]
          enabled_client_enabled silent
    by (simp add: enabled_client_def)
  ultimately show ?thesis using off enabled_client_enabled silent by blast
qed

text \<open>
  Claim C6. The credential is the configured one if there is one, else that of the
  environment variable if there is one, else the compiled-in placeholder (a value that is
  \<open>undefined\<close> or empty counts as absent). When the client is constructed while not
  opted out and the resolved credential contains neither \<open>InstrumentationKey=\<close> nor
  \<open>IngestionEndpoint=\<close>, the constructor returns a disabled client without an SDK
  client, no call to the sink is made, and every later operation is a no-op.
\<close>

theorem invalid_credential_disables:
  "(\<forall>s. connectionString config = Some s \<and> s \<noteq> [] \<longrightarrow>
        getConnectionString (process_env rt0) (connectionString config) = s)
   \<and> (\<forall>t. connectionString config \<in> {None, Some []}
           \<and> process_env rt0 ''HEFT_PLUGINS_APP_INSIGHTS_CONNECTION_STRING'' = Some t \<and> t \<noteq> [] \<longrightarrow>
        getConnectionString (process_env rt0) (connectionString config) = t)
   \<and> (connectionString config \<in> {None, Some []}
           \<and> process_env rt0 ''HEFT_PLUGINS_APP_INSIGHTS_CONNECTION_STRING'' \<in> {None, Some []} \<longrightarrow>
        getConnectionString (process_env rt0) (connectionString config) = DEFAULT_CONNECTION_STRING)
   \<and> (\<not> isTelemetryDisabled (unicode_lower rt0) (process_env rt0)
        \<and> \<not> includes_js (getConnectionString (process_env rt0) (connectionString config))
               (js ''InstrumentationKey='')
        \<and> \<not> includes_js (getConnectionString (process_env rt0) (connectionString config))
               (js ''IngestionEndpoint='')
        \<and> new_TelemetryClient rt0 config w0 = (c, w1) \<longrightarrow>
          \<not> isEnabled c \<and> private_client c = None \<and> sink_calls w1 = sink_calls w0
          \<and> trackPluginInstalled rt c w = Returns w
          \<and> trackPluginStarted rt c w = Returns w
          \<and> trackPluginCompleted rt c durationMs outcome warningCount w = Returns w
          \<and> trackPluginError rt c err durationMs w = Returns w
          \<and> trackPluginWarning rt c category message w = Returns w
          \<and> flush rt c w = (Resolved 0, w))"
proof -
  have order: "(\<forall>s. connectionString config = Some s \<and> s \<noteq> [] \<longrightarrow>
        getConnectionString (process_env rt0) (connectionString config) = s)
   \<and> (\<forall>t. connectionString config \<in> {None, Some []}
           \<and> process_env rt0 ''HEFT_PLUGINS_APP_INSIGHTS_CONNECTION_STRING'' = Some t \<and> t \<noteq> [] \<longrightarrow>
        getConnectionString (process_env rt0) (connectionString config) = t)
   \<and> (connectionString config \<in> {None, Some []}
           \<and> process_env rt0 ''HEFT_PLUGINS_APP_INSIGHTS_CONNECTION_STRING'' \<in> {None, Some []} \<longrightarrow>
        getConnectionString (process_env rt0) (connectionString config) = DEFAULT_CONNECTION_STRING)"
    by (auto simp: getConnectionString_def js_or_def)
  have disabled: "\<not> isEnabled c \<and> private_client c = None \<and> sink_calls w1 = sink_calls w0
          \<and> trackPluginInstalled rt c w = Returns w
          \<and> trackPluginStarted rt c w = Returns w
          \<and> trackPluginCompleted rt c durationMs outcome warningCount w = Returns w
          \<and> trackPluginError rt c err durationMs w = Returns w
          \<and> trackPluginWarning rt c category message w = Returns w
          \<and> flush rt c w = (Resolved 0, w)"
    if a: "\<not> includes_js (getConnectionString (process_env rt0) (connectionString config))
               (js ''InstrumentationKey='')"
      and b: "\<not> includes_js (getConnectionString (process_env rt0) (connectionString config))
               (js ''IngestionEndpoint='')"
      and made: "new_TelemetryClient rt0 config w0 = (c, w1)"
  proof -
    from a b have invalid:
      "\<not> isValidConnectionString (getConnectionString (process_env rt0) (connectionString config))"
      by (simp add: isValidConnectionString_def)
    from made have c: "c = fst (new_TelemetryClient rt0 config w0)"
      and w1: "w1 = snd (new_TelemetryClient rt0 config w0)" by simp_all
    have off: "\<not> private_enabled c" and none: "private_client c = None"
      and calls: "sink_calls w1 = sink_calls w0"
      unfolding c w1 using new_client_invalid_credential [OF invalid] by simp_all
    from off have "inactive c" by (simp add: inactive_def)
    with off none calls show ?thesis by (simp add: inactive_noop isEnabled_def)
  qed
  from order disabled show ?thesis by blast
qed

lemma placeholder_invalid:
  "\<not> includes_js DEFAULT_CONNECTION_STRING (js ''InstrumentationKey='')
   \<and> \<not> includes_js DEFAULT_CONNECTION_STRING (js ''IngestionEndpoint='')"
  by code_simp

theorem invalid_credential_disables_witness:
  "connectionString config_without_credential \<in> {None, Some []}
   \<and> process_env plain_runtime ''HEFT_PLUGINS_APP_INSIGHTS_CONNECTION_STRING'' \<in> {None, Some []}
   \<and> getConnectionString (process_env plain_runtime) (connectionString config_without_credential)
        = DEFAULT_CONNECTION_STRING
   \<and> \<not> isTelemetryDisabled (unicode_lower plain_runtime) (process_env plain_runtime)
   \<and> \<not> includes_js DEFAULT_CONNECTION_STRING (js ''InstrumentationKey='')
   \<and> \<not> includes_js DEFAULT_CONNECTION_STRING (js ''IngestionEndpoint='')
   \<and> \<not> isEnabled unprovisioned_client
   \<and> private_client unprovisioned_client = None
   \<and> trackPluginStarted plain_runtime unprovisioned_client enabled_world = Returns enabled_world
   \<and> connectionString config_with_credential
        = Some (js ''InstrumentationKey=00000000-0000-0000-0000-000000000000'')
   \<and> getConnectionString (process_env plain_runtime) (connectionString config_with_credential)
        = js ''InstrumentationKey=00000000-0000-0000-0000-000000000000''"
proof -
  have cfg: "connectionString config_without_credential \<in> {None, Some []}"
    by (simp add: config_without_credential_def)
  have env: "process_env plain_runtime ''HEFT_PLUGINS_APP_INSIGHTS_CONNECTION_STRING'' \<in> {None, Some []}"
    by (simp add: plain_runtime_def env_unset_def)
  have cfg2: "connectionString config_with_credential
        = Some (js ''InstrumentationKey=00000000-0000-0000-0000-000000000000'')"
    by (simp add: config_with_credential_def)
  have nonempty: "js ''InstrumentationKey=00000000-0000-0000-0000-000000000000'' \<noteq> []"
    by (simp add: js_def)
  note inst = invalid_credential_disables
      [of config_without_credential plain_runtime fresh_world unprovisioned_client
          "snd (new_TelemetryClient plain_runtime config_without_credential fresh_world)"
          plain_runtime enabled_world]
  have resolved: "getConnectionString (process_env plain_runtime)
          (connectionString config_without_credential) = DEFAULT_CONNECTION_STRING"
    using inst cfg env by blast
  have made: "new_TelemetryClient plain_runtime config_without_credential fresh_world
      = (unprovisioned_client, snd (new_TelemetryClient plain_runtime config_without_credential fresh_world))"
    by (simp add: unprovisioned_client_def)
  have "\<not> isEnabled unprovisioned_client \<and> private_client unprovisioned_client = None
     \<and> trackPluginStarted plain_runtime unprovisioned_client enabled_world = Returns enabled_world"
    using inst not_opted_out_example placeholder_invalid made unfolding resolved by blast
  moreover have "getConnectionString (process_env plain_runtime) (connectionString config_with_credential)
        = js ''InstrumentationKey=00000000-0000-0000-0000-000000000000''"
    using invalid_credential_disables [of config_with_credential plain_runtime] cfg2 nonempty by blast
  ultimately show ?thesis
    using cfg env cfg2 resolved not_opted_out_example placeholder_invalid by blast
qed



lemma world_of_try_catch: "world_of (try_catch r) = world_of r"
  by (cases r) simp_all


lemma world_of_sink_call: "world_of (sink_call throws call w) = w\<lparr>sink_calls := sink_calls w @ [call]\<rparr>"
  by (simp add: sink_call_def Let_def)



lemma error_event_example:
  "calls_made enabled_world
     (world_of (trackPluginError plain_runtime enabled_client
        (ErrorObject (js ''TypeError'') (js ''cannot read /etc/passwd'')) 1500 enabled_world)) =
   [TrackEvent (js ''plugin.error'')
      [(''timestamp'', js ''2025-01-01T00:00:00.000Z''), (''errorType'', js ''TypeError''),
       (''errorMessage'', js ''cannot read [PATH]''), (''durationMs'', js ''1500'')] []]"
  by code_simp


text \<open>
  Claim C10. The context that the constructor builds, and that \<open>getContext\<close> returns,
  has exactly the seven properties osType, osVersion, nodeVersion, isCI, sessionId,
  pluginName and pluginVersion; it has no property telemetryClientVersion. Every
  invocation of \<open>getTelemetryClientVersion\<close> changes the module state of utils.ts (it
  is counted there), and neither the constructor nor any operation of the client changes
  that state: the client never invokes it.
\<close>

theorem context_has_seven_properties:
  "getContext (fst (new_TelemetryClient rt0 config w0)) =
     [(''osType'', JString (os_platform (sys rt0))),
      (''osVersion'', JString (os_release (sys rt0))),
      (''nodeVersion'', JString (getNodeVersion (sys rt0))),
      (''isCI'', JBool (ciInfo_isCI (sys rt0))),
      (''sessionId'', JString (fst (generateSessionId (random_tape w0)))),
      (''pluginName'', JString (pluginName config)),
      (''pluginVersion'', JString (pluginVersion config))]
   \<and> map fst (getContext (fst (new_TelemetryClient rt0 config w0))) =
       [''osType'', ''osVersion'', ''nodeVersion'', ''isCI'', ''sessionId'', ''pluginName'',
        ''pluginVersion'']
   \<and> map_of (getContext (fst (new_TelemetryClient rt0 config w0))) ''telemetryClientVersion'' = None
   \<and> version_lookups (snd (getTelemetryClientVersion pkg st)) = version_lookups st + 1
   \<and> utils_module (snd (new_TelemetryClient rt0 config w0)) = utils_module w0
   \<and> utils_module (world_of (trackPluginInstalled rt c w)) = utils_module w
   \<and> utils_module (world_of (trackPluginStarted rt c w)) = utils_module w
   \<and> utils_module (world_of (trackPluginCompleted rt c durationMs outcome warningCount w)) = utils_module w
   \<and> utils_module (world_of (trackPluginError rt c err durationMs w)) = utils_module w
   \<and> utils_module (world_of (trackPluginWarning rt c category message w)) = utils_module w
   \<and> utils_module (snd (flush rt c w)) = utils_module w"
proof -
  have ctx: "getContext (fst (new_TelemetryClient rt0 config w0)) =
     [(''osType'', JString (os_platform (sys rt0))),
      (''osVersion'', JString (os_release (sys rt0))),
      (''nodeVersion'', JString (getNodeVersion (sys rt0))),
      (''isCI'', JBool (ciInfo_isCI (sys rt0))),
      (''sessionId'', JString (fst (generateSessionId (random_tape w0)))),
      (''pluginName'', JString (pluginName config)),
      (''pluginVersion'', JString (pluginVersion config))]"
    by (simp add: new_TelemetryClient_def Let_def getContext_def sink_call_def getOsType_def
          getOsVersion_def getIsCIEnvironment_def split: completion.splits)
  have lookups: "version_lookups (snd (getTelemetryClientVersion pkg st)) = version_lookups st + 1"
    by (simp add: getTelemetryClientVersion_def Let_def split: option.splits)
  have ctor: "utils_module (snd (new_TelemetryClient rt0 config w0)) = utils_module w0"
    by (simp add: new_TelemetryClient_def Let_def sink_call_def)
  have call: "utils_module (world_of (try_catch (sink_call throws x w))) = utils_module w"
    for throws x
    by (simp add: world_of_try_catch world_of_sink_call)
  have completed:
    "utils_module (world_of (trackPluginCompleted rt c durationMs outcome warningCount w)) = utils_module w"
    by (simp add: trackPluginCompleted_def world_of_try_catch sink_call_def Let_def)
  have err: "utils_module (world_of (trackPluginError rt c err durationMs w)) = utils_module w"
    by (simp add: trackPluginError_def world_of_try_catch world_of_sink_call split: option.splits)
  show ?thesis
    unfolding ctx
    by (simp add: lookups ctor completed err call trackPluginInstalled_def trackPluginStarted_def
          trackPluginWarning_def flush_def)
qed

end
